theory Spec2Isabelle
  imports Main "HOL-Library.AList" "HOL-Library.Word"
begin

section \<open>The msgbid scheduler (src/msgbid-worker/src/scheduler.js)\<close>

text \<open>
  The scheduler is one JavaScript class, \<^verbatim>\<open>SchedulerDurableObject\<close>. Its instance
  variables and its durable storage are the state; every handler is a function from the
  state to the new state and what it returned. Amounts (bids, balances, configuration
  values) are integers here, as the data model has them; a value of the source that may
  be \<^verbatim>\<open>NaN\<close> or \<^verbatim>\<open>undefined\<close> keeps that possibility.
\<close>

subsection \<open>JavaScript values\<close>

text \<open>A JSON value of a request body, or \<^verbatim>\<open>undefined\<close> for a field that is absent.\<close>

datatype jsval = Undefined | Null | Bool bool | Number int | Str string | Object

text \<open>What \<^verbatim>\<open>!v\<close> negates.\<close>

fun truthy :: "jsval \<Rightarrow> bool" where
  "truthy Undefined = False"
| "truthy Null = False"
| "truthy (Bool b) = b"
| "truthy (Number n) = (n \<noteq> 0)"
| "truthy (Str s) = (s \<noteq> [])"
| "truthy Object = True"

text \<open>A stored balance: a number, or \<^verbatim>\<open>NaN\<close> once arithmetic met \<^verbatim>\<open>undefined\<close>.\<close>

datatype jsnum = Num int | NaN

text \<open>\<^verbatim>\<open>v - n\<close> and \<^verbatim>\<open>v + n\<close> where \<^verbatim>\<open>v\<close> was read from a Map (\<open>None\<close> is \<^verbatim>\<open>undefined\<close>).\<close>

fun js_sub :: "jsnum option \<Rightarrow> int \<Rightarrow> jsnum" where
  "js_sub (Some (Num b)) n = Num (b - n)"
| "js_sub _ n = NaN"

fun js_add :: "jsnum option \<Rightarrow> int \<Rightarrow> jsnum" where
  "js_add (Some (Num b)) n = Num (b + n)"
| "js_add _ n = NaN"

text \<open>\<^verbatim>\<open>Math.min(m, v)\<close>: \<^verbatim>\<open>NaN\<close> if an argument is.\<close>

fun js_min :: "int \<Rightarrow> jsnum \<Rightarrow> jsnum" where
  "js_min m (Num b) = Num (min m b)"
| "js_min m NaN = NaN"

text \<open>\<^verbatim>\<open>v < n\<close>: false when \<^verbatim>\<open>v\<close> is \<^verbatim>\<open>NaN\<close>.\<close>

fun js_lt :: "jsnum \<Rightarrow> int \<Rightarrow> bool" where
  "js_lt (Num b) n = (b < n)"
| "js_lt NaN n = False"

subsection \<open>generateToken\<close>

text \<open>
  \<^verbatim>\<open>btoa\<close> is the platform's base64 encoder (standard alphabet, \<^verbatim>\<open>=\<close> padding),
  applied to the string whose character codes are the bytes.
\<close>

definition b64chars :: string where
  "b64chars = ''ABCDEFGHIJKLMNOPQRSTUVWXYZabcdefghijklmnopqrstuvwxyz0123456789+/''"

definition b64 :: "nat \<Rightarrow> char" where
  "b64 i = b64chars ! (i mod 64)"

fun btoa :: "8 word list \<Rightarrow> string" where
  "btoa [] = []"
| "btoa [a] =
     [b64 (unat a div 4), b64 ((unat a mod 4) * 16), CHR ''='', CHR ''='']"
| "btoa [a, b] =
     [b64 (unat a div 4), b64 ((unat a mod 4) * 16 + unat b div 16),
      b64 ((unat b mod 16) * 4), CHR ''='']"
| "btoa (a # b # c # rest) =
     [b64 (unat a div 4), b64 ((unat a mod 4) * 16 + unat b div 16),
      b64 ((unat b mod 16) * 4 + unat c div 64), b64 (unat c mod 64)] @ btoa rest"

text \<open>
  \<^verbatim>\<open>btoa(...).replace(/[+/]/g, '').slice(0, 16)\<close>; the argument is the content of
  \<^verbatim>\<open>randomBytes\<close> after \<^verbatim>\<open>crypto.getRandomValues\<close>.
\<close>

definition strip_plus_slash :: "string \<Rightarrow> string" where
  "strip_plus_slash cs = filter (\<lambda>c. c \<noteq> CHR ''+'' \<and> c \<noteq> CHR ''/'') cs"

definition generateToken :: "8 word list \<Rightarrow> string" where
  "generateToken randomBytes = take 16 (strip_plus_slash (btoa randomBytes))"

subsection \<open>Bids and the per-token deduplication of processBatch\<close>

record bid_entry =
  token :: string
  message :: jsval
  bid :: int

text \<open>
  A JavaScript \<^verbatim>\<open>Map\<close> is an association list in insertion order; \<^verbatim>\<open>set\<close> on a key
  that is present replaces the value in place, which is \<^const>\<open>AList.update\<close>.
  One turn of the loop over \<^verbatim>\<open>this.batch\<close>:
\<close>

definition dedup_step :: "bid_entry \<Rightarrow> (string \<times> bid_entry) list \<Rightarrow> (string \<times> bid_entry) list" where
  "dedup_step b m =
     (case map_of m (token b) of
        None \<Rightarrow> AList.update (token b) b m
      | Some existingBid \<Rightarrow>
          if bid b > bid existingBid then AList.update (token b) b m else m)"

definition uniqueBidsMap :: "bid_entry list \<Rightarrow> (string \<times> bid_entry) list" where
  "uniqueBidsMap bids = fold dedup_step bids []"

definition uniqueBids :: "bid_entry list \<Rightarrow> bid_entry list" where
  "uniqueBids bids = map snd (uniqueBidsMap bids)"

subsection \<open>Configuration, storage and instance variables\<close>

text \<open>
  The constructor reads five integers from the environment with
  \<^verbatim>\<open>parseInt(env.X) || default\<close>: the default stands in when the text is no number
  (\<open>None\<close>) and also when it is 0.
\<close>

record config =
  N :: int
  timeout :: int
  accumulate :: int
  start :: int
  max_bal :: int
  ADMIN_TOKEN :: "string option"

definition or_default :: "int option \<Rightarrow> int \<Rightarrow> int" where
  "or_default parsed d = (case parsed of None \<Rightarrow> d | Some v \<Rightarrow> if v = 0 then d else v)"

record raw_env =
  env_N :: "int option"
  env_TIMEOUT :: "int option"
  env_ACCUMULATE_BAL :: "int option"
  env_START_BAL :: "int option"
  env_MAX_BAL :: "int option"
  env_ADMIN_TOKEN :: "string option"

definition configure :: "raw_env \<Rightarrow> config" where
  "configure env =
     \<lparr>N = or_default (env_N env) 5,
      timeout = or_default (env_TIMEOUT env) 5000,
      accumulate = or_default (env_ACCUMULATE_BAL env) 0,
      start = or_default (env_START_BAL env) 10,
      max_bal = or_default (env_MAX_BAL env) 100,
      ADMIN_TOKEN = env_ADMIN_TOKEN env\<rparr>"

text \<open>A parked request: the token and the \<^verbatim>\<open>resolve\<close> of the caller's promise, named by the
  number of the connection it answers.\<close>

record pending =
  pending_token :: string
  resolve :: nat

record acceptedMessage =
  accepted_message :: jsval
  bidderToken :: string
  bidderName :: "jsval option"
  timestamp :: string

text \<open>
  The three key namespaces of the storage (\<^verbatim>\<open>balance:\<close>, \<^verbatim>\<open>name:\<close>, \<^verbatim>\<open>message:\<close>) are three
  maps; a message key \<^verbatim>\<open>message:<ms>-<suffix>\<close> is the pair of its parts. The storage
  has one alarm slot: the time the alarm is armed for, if it is armed.
\<close>

record state =
  batch :: "bid_entry list"
  pendingRequests :: "pending list"
  processing :: bool
  balances :: "string \<rightharpoonup> jsnum"
  names :: "string \<rightharpoonup> jsval"
  messages :: "(int \<times> string) \<rightharpoonup> acceptedMessage"
  alarm_slot :: "int option"

definition init :: state where
  "init = \<lparr>batch = [], pendingRequests = [], processing = False,
            balances = Map.empty, names = Map.empty, messages = Map.empty, alarm_slot = None\<rparr>"

subsection \<open>Responses\<close>

record stats =
  winBid :: int
  sumBid :: int
  nBids :: nat

record payload =
  payload_message :: jsval
  payload_balance :: "jsnum option"
  payload_name :: "jsval option"
  payload_status :: string
  payload_stats :: stats

text \<open>The bodies of \<^verbatim>\<open>/clients\<close> and of the replay are not modelled beyond their status.
  \<open>RuntimeError\<close> is the body of the 500 with which the runtime answers a request that was
  in flight when it discarded the object.\<close>

datatype body =
    Text string
  | NoBody
  | RegisterJson string int jsval
  | BalanceJson jsnum "jsval option"
  | SettlementJson "payload option"
  | ClientsJson
  | MessagesJson
  | DeleteJson
  | RuntimeError

datatype response = Response (status: nat) (content: body)

text \<open>What a handler's call ends in: a response, a promise that stays pending until a
  settlement resolves it, or an exception.\<close>

datatype reply = Reply response | Parked | Throws

subsection \<open>What the environment supplies to one run of a handler\<close>

datatype storage_op = DeleteAlarm | GetBalances | GetNames | PutBalances | PutMessage

datatype thrown = StorageError storage_op | TypeError

record world =
  now :: int
  iso :: string
  rand36 :: string
  randomBytes :: "8 word list"
  fault :: "storage_op option"

text \<open>
  \<open>now\<close> is \<^verbatim>\<open>Date.now()\<close>, \<open>iso\<close> is \<^verbatim>\<open>new Date().toISOString()\<close>, \<open>rand36\<close> is
  \<^verbatim>\<open>Math.random().toString(36).substring(2, 7)\<close>, \<open>randomBytes\<close> is what
  \<^verbatim>\<open>crypto.getRandomValues\<close> wrote, and \<open>fault\<close> names the storage operation of
  \<^verbatim>\<open>processBatch\<close> that throws in this run, if one does.
\<close>

subsection \<open>processBatch\<close>

text \<open>\<^verbatim>\<open>m.get(k)\<close> on a Map whose values may be \<^verbatim>\<open>undefined\<close>.\<close>

definition map_get :: "('k \<times> 'v option) list \<Rightarrow> 'k \<Rightarrow> 'v option" where
  "map_get m k = (case map_of m k of None \<Rightarrow> None | Some v \<Rightarrow> v)"

text \<open>The loop that fills \<^verbatim>\<open>balances\<close> and \<^verbatim>\<open>names\<close> from what the multi-get returned.\<close>

definition loadMap :: "(string \<rightharpoonup> 'v) \<Rightarrow> string list \<Rightarrow> (string \<times> 'v option) list" where
  "loadMap stored tokens = fold (\<lambda>t m. AList.update t (stored t) m) tokens []"

text \<open>\<^verbatim>\<open>uniqueBids.sort((a, b) => b.bid - a.bid)\<close>: a stable sort, descending by bid.\<close>

definition sortedBids :: "bid_entry list \<Rightarrow> bid_entry list" where
  "sortedBids bids = sort_key (\<lambda>b. - bid b) (uniqueBids bids)"

text \<open>\<^verbatim>\<open>uniqueBids[1]?.bid || 0\<close>\<close>

definition secondHighestBid :: "bid_entry list \<Rightarrow> int" where
  "secondHighestBid ranked =
     (case ranked of
        _ # second # _ \<Rightarrow> if bid second \<noteq> 0 then bid second else 0
      | _ \<Rightarrow> 0)"

text \<open>\<^verbatim>\<open>if (highestBalance < 0) highestBalance = 0\<close>\<close>

definition clamp0 :: "jsnum \<Rightarrow> jsnum" where
  "clamp0 v = (if js_lt v 0 then Num 0 else v)"

text \<open>One turn of the loop that accumulates the balances of the bidders who lost.\<close>

definition loser_step ::
  "config \<Rightarrow> string \<Rightarrow> bid_entry \<Rightarrow> (string \<times> jsnum option) list \<Rightarrow> (string \<times> jsnum option) list" where
  "loser_step cfg highestToken b bal =
     (if token b \<noteq> highestToken
      then AList.update (token b)
             (Some (js_min (max_bal cfg) (js_add (map_get bal (token b)) (accumulate cfg)))) bal
      else bal)"

text \<open>The Map \<^verbatim>\<open>balances\<close> as it stands before it is written back (lines 292 to 325).\<close>

definition updatedBalances ::
  "config \<Rightarrow> (string \<rightharpoonup> jsnum) \<Rightarrow> bid_entry list \<Rightarrow> (string \<times> jsnum option) list" where
  "updatedBalances cfg stored bids =
     (case sortedBids bids of
        [] \<Rightarrow> []
      | highestBidder # rest \<Rightarrow>
          let loaded = loadMap stored (map token (uniqueBids bids));
              highestToken = token highestBidder;
              highestBalance =
                clamp0 (js_sub (map_get loaded highestToken)
                          (secondHighestBid (highestBidder # rest)))
          in fold (loser_step cfg highestToken) (highestBidder # rest)
               (AList.update highestToken (Some highestBalance) loaded))"

text \<open>The multi-key \<^verbatim>\<open>storage.put\<close> of an object built from a Map. A value that is
  \<^verbatim>\<open>undefined\<close> reads back as a missing key; the Map that \<^verbatim>\<open>processBatch\<close> writes has none
  (\<open>updatedBalances_lookup\<close> below).\<close>

definition put_all :: "(string \<times> 'v option) list \<Rightarrow> (string \<rightharpoonup> 'v) \<Rightarrow> (string \<rightharpoonup> 'v)" where
  "put_all entries stored = fold (\<lambda>(k, v) m. m(k := v)) entries stored"

text \<open>The object \<^verbatim>\<open>responses\<close>, keyed by token, built by the loop over \<^verbatim>\<open>this.batch\<close>.\<close>

definition responses ::
  "bid_entry list \<Rightarrow> bid_entry \<Rightarrow> stats \<Rightarrow> (string \<times> jsnum option) list \<Rightarrow>
   (string \<times> jsval option) list \<Rightarrow> (string \<times> payload) list" where
  "responses bids highestBidder st bal nms =
     fold (\<lambda>b r. AList.update (token b)
             \<lparr>payload_message = message highestBidder,
              payload_balance = map_get bal (token b),
              payload_name = map_get nms (token b),
              payload_status = (if token b = token highestBidder then ''accepted'' else ''rejected''),
              payload_stats = st\<rparr> r) bids []"

text \<open>
  A settlement is given by the bids it read from \<^verbatim>\<open>this.batch\<close>, the message it stored
  and the responses it resolved, in the order of \<^verbatim>\<open>pendingRequests\<close>.
\<close>

record settlement =
  settled :: "bid_entry list"
  accepted :: acceptedMessage
  resolved :: "(nat \<times> response) list"

text \<open>
  The callback that \<^verbatim>\<open>processBatch\<close> passes to \<^verbatim>\<open>blockConcurrencyWhile\<close> (lines 268 to
  382), run on the instance with \<^verbatim>\<open>processing\<close> already set: the state it leaves, and the
  exception it threw (\<open>Inl\<close>) or the settlement it made (\<open>Inr\<close>). With an empty batch
  \<^verbatim>\<open>highestBidder.token\<close> is a TypeError.
\<close>

definition processBatch_callback ::
  "config \<Rightarrow> world \<Rightarrow> state \<Rightarrow> state \<times> (thrown + settlement)" where
  "processBatch_callback cfg w s1 =
     (if fault w = Some DeleteAlarm then (s1, Inl (StorageError DeleteAlarm))
      else
        let s2 = s1\<lparr>alarm_slot := None\<rparr>;
            tokens = map token (uniqueBids (batch s2)) in
        if fault w = Some GetBalances then (s2, Inl (StorageError GetBalances))
        else if fault w = Some GetNames then (s2, Inl (StorageError GetNames))
        else
          (case sortedBids (batch s2) of
             [] \<Rightarrow> (s2, Inl TypeError)
           | highestBidder # rest \<Rightarrow>
               let nms = loadMap (names s2) tokens;
                   bal = updatedBalances cfg (balances s2) (batch s2) in
               if fault w = Some PutBalances then (s2, Inl (StorageError PutBalances))
               else
                 let s3 = s2\<lparr>balances := put_all bal (balances s2)\<rparr>;
                     acceptedMessage =
                       \<lparr>accepted_message = message highestBidder,
                        bidderToken = token highestBidder,
                        bidderName = map_get nms (token highestBidder),
                        timestamp = iso w\<rparr> in
                 if fault w = Some PutMessage then (s3, Inl (StorageError PutMessage))
                 else
                   let s4 = s3\<lparr>messages := (messages s3)((now w, rand36 w) \<mapsto> acceptedMessage)\<rparr>;
                       st = \<lparr>winBid = secondHighestBid (highestBidder # rest),
                             sumBid = sum_list (map bid (highestBidder # rest)),
                             nBids = length (uniqueBids (batch s2))\<rparr>;
                       rs = responses (batch s4) highestBidder st bal nms
                   in (s4\<lparr>batch := [], pendingRequests := [], processing := False\<rparr>,
                       Inr \<lparr>settled = batch s4, accepted = acceptedMessage,
                            resolved = map (\<lambda>p. (resolve p,
                                Response 200 (SettlementJson (map_of rs (pending_token p)))))
                              (pendingRequests s4)\<rparr>)))"

text \<open>
  \<^verbatim>\<open>this.state.blockConcurrencyWhile\<close> is the runtime's. While the callback runs no other
  event is delivered, which the model has in handling one event at a time. When the
  callback throws, the runtime discards the object: every request in flight is answered
  with a 500, and the next event finds a new instance, whose constructor has made
  \<^verbatim>\<open>batch\<close> and \<^verbatim>\<open>pendingRequests\<close> empty and \<^verbatim>\<open>processing\<close> false. The storage, with its
  alarm, stays as the callback left it. The calls of \<^verbatim>\<open>blockConcurrencyWhile\<close> around
  \<^verbatim>\<open>processBatch\<close> in \<^verbatim>\<open>handleSendMessage\<close> and \<^verbatim>\<open>alarm\<close> pass the same exception on.
\<close>

definition object_reset :: "state \<Rightarrow> state" where
  "object_reset s = s\<lparr>batch := [], pendingRequests := [], processing := False\<rparr>"

text \<open>What the runtime's reset did: the exception, the responses to the parked requests,
  and the bids that were in the batch of the discarded instance.\<close>

record abort =
  thrown_by :: thrown
  broken :: "(nat \<times> response) list"
  dropped :: "bid_entry list"

definition blockConcurrencyWhile ::
  "(state \<Rightarrow> state \<times> (thrown + 'a)) \<Rightarrow> state \<Rightarrow> state \<times> (abort + 'a)" where
  "blockConcurrencyWhile callback s =
     (case callback s of
        (s', Inl e) \<Rightarrow>
          (object_reset s',
           Inl \<lparr>thrown_by = e,
                broken = map (\<lambda>p. (resolve p, Response 500 RuntimeError)) (pendingRequests s'),
                dropped = batch s'\<rparr>)
      | (s', Inr r) \<Rightarrow> (s', Inr r))"

text \<open>What a run of \<^verbatim>\<open>processBatch\<close> did: returned at once because \<^verbatim>\<open>processing\<close> was set,
  was aborted by an exception, or settled.\<close>

datatype outcome = Skipped | Aborted abort | Settled settlement

definition processBatch :: "config \<Rightarrow> world \<Rightarrow> state \<Rightarrow> state \<times> outcome" where
  "processBatch cfg w s =
     (if processing s then (s, Skipped)
      else
        case blockConcurrencyWhile (processBatch_callback cfg w) (s\<lparr>processing := True\<rparr>) of
          (s', Inl a) \<Rightarrow> (s', Aborted a)
        | (s', Inr r) \<Rightarrow> (s', Settled r))"

subsection \<open>Requests and handlers\<close>

text \<open>The fields a handler destructures from the JSON body; \<^const>\<open>Undefined\<close> when absent.\<close>

record fields =
  field_name :: jsval
  field_message :: jsval
  field_bid :: jsval

text \<open>
  A request: its method and path, the headers \<^verbatim>\<open>X-Client-Token\<close> and \<^verbatim>\<open>Authorization\<close>
  (\<open>None\<close> when \<^verbatim>\<open>headers.get\<close> gives \<^verbatim>\<open>null\<close>), its body as \<^verbatim>\<open>parseRequestBody\<close> returns it
  (\<open>None\<close> when that throws), and the connection a response goes to.
\<close>

record request =
  "method" :: string
  pathname :: string
  client_token :: "string option"
  authorization :: "string option"
  json_body :: "fields option"
  conn :: nat

definition handleOptions :: "request \<Rightarrow> response" where
  "handleOptions req = Response 200 NoBody"

definition handleRegister :: "config \<Rightarrow> world \<Rightarrow> request \<Rightarrow> state \<Rightarrow> state \<times> reply" where
  "handleRegister cfg w req s =
     (if method req \<noteq> ''PUT'' then (s, Reply (Response 405 (Text ''Method Not Allowed'')))
      else
        case json_body req of
          None \<Rightarrow> (s, Throws)
        | Some f \<Rightarrow>
            if \<not> truthy (field_name f) then (s, Reply (Response 400 (Text ''Name is required'')))
            else
              let tok = generateToken (randomBytes w);
                  balance = start cfg
              in (s\<lparr>balances := (balances s)(tok \<mapsto> Num balance),
                    names := (names s)(tok \<mapsto> field_name f)\<rparr>,
                  Reply (Response 200 (RegisterJson tok balance (field_name f)))))"

definition handleGetBalance :: "request \<Rightarrow> state \<Rightarrow> state \<times> reply" where
  "handleGetBalance req s =
     (if method req \<noteq> ''GET'' then (s, Reply (Response 405 (Text ''Method Not Allowed'')))
      else
        case client_token req of
          None \<Rightarrow> (s, Reply (Response 400 (Text ''Missing token header'')))
        | Some tok \<Rightarrow>
            if tok = [] then (s, Reply (Response 400 (Text ''Missing token header'')))
            else
              (case balances s tok of
                 None \<Rightarrow> (s, Reply (Response 400 (Text ''Invalid token'')))
               | Some balance \<Rightarrow> (s, Reply (Response 200 (BalanceJson balance (names s tok))))))"

text \<open>\<^verbatim>\<open>`Bearer ${this.env.ADMIN_TOKEN}`\<close>\<close>

definition bearer :: "config \<Rightarrow> string" where
  "bearer cfg = ''Bearer '' @ (case ADMIN_TOKEN cfg of None \<Rightarrow> ''undefined'' | Some t \<Rightarrow> t)"

definition handleListClients :: "config \<Rightarrow> request \<Rightarrow> state \<Rightarrow> state \<times> reply" where
  "handleListClients cfg req s =
     (if method req \<noteq> ''GET'' then (s, Reply (Response 405 (Text ''Method Not Allowed'')))
      else if authorization req \<noteq> Some (bearer cfg)
      then (s, Reply (Response 401 (Text ''Unauthorized'')))
      else (s, Reply (Response 200 ClientsJson)))"

definition handleReplayMessages :: "request \<Rightarrow> state \<Rightarrow> state \<times> reply" where
  "handleReplayMessages req s =
     (if method req \<noteq> ''GET'' then (s, Reply (Response 405 (Text ''Method Not Allowed'')))
      else (s, Reply (Response 200 MessagesJson)))"

text \<open>The checks of \<^verbatim>\<open>handleSendMessage\<close> (lines 215 to 239): the early return, or the bid
  that is pushed to the batch.\<close>

definition validateSend :: "request \<Rightarrow> state \<Rightarrow> reply + bid_entry" where
  "validateSend req s =
     (if method req \<noteq> ''POST'' then Inl (Reply (Response 405 (Text ''Method Not Allowed'')))
      else
        case client_token req of
          None \<Rightarrow> Inl (Reply (Response 400 (Text ''Missing token header'')))
        | Some tok \<Rightarrow>
            if tok = [] then Inl (Reply (Response 400 (Text ''Missing token header'')))
            else
              (case json_body req of
                 None \<Rightarrow> Inl Throws
               | Some f \<Rightarrow>
                   if \<not> truthy (field_message f) \<or> field_bid f = Undefined \<or> field_bid f = Null
                   then Inl (Reply (Response 400 (Text ''Missing parameters'')))
                   else
                     (case field_bid f of
                        Number n \<Rightarrow>
                          if n \<le> 0 then Inl (Reply (Response 400 (Text ''Invalid bid amount'')))
                          else
                            (case balances s tok of
                               None \<Rightarrow>
                                 Inl (Reply (Response 400
                                   (Text ''Invalid token or insufficient balance'')))
                             | Some clientBalance \<Rightarrow>
                                 if js_lt clientBalance n
                                 then Inl (Reply (Response 400
                                   (Text ''Invalid token or insufficient balance'')))
                                 else Inr \<lparr>token = tok, message = field_message f, bid = n\<rparr>)
                      | _ \<Rightarrow> Inl (Reply (Response 400 (Text ''Invalid bid amount''))))))"

text \<open>
  The rest of \<^verbatim>\<open>handleSendMessage\<close> (lines 241 to 261) for connection \<open>c\<close>. When the batch
  has reached \<open>N\<close> the caller is not pushed to \<^verbatim>\<open>pendingRequests\<close>: it awaits
  \<^verbatim>\<open>processBatch\<close> and then runs on to the last \<^verbatim>\<open>return\<close> of the function, or, when
  \<^verbatim>\<open>processBatch\<close> was aborted, has the exception.
\<close>

definition admit ::
  "config \<Rightarrow> world \<Rightarrow> nat \<Rightarrow> bid_entry \<Rightarrow> state \<Rightarrow> state \<times> reply \<times> outcome option" where
  "admit cfg w c b s =
     (let s1 = s\<lparr>batch := batch s @ [b]\<rparr>;
          s2 = (if length (batch s1) = 1 then s1\<lparr>alarm_slot := Some (now w + timeout cfg)\<rparr> else s1)
      in if int (length (batch s2)) \<ge> N cfg then
           (case processBatch cfg w s2 of
              (s3, Aborted a) \<Rightarrow> (s3, Throws, Some (Aborted a))
            | (s3, oc) \<Rightarrow> (s3, Reply (Response 500 (Text ''Unexpected error'')), Some oc))
         else
           (s2\<lparr>pendingRequests := pendingRequests s2 @ [\<lparr>pending_token = token b, resolve = c\<rparr>]\<rparr>,
            Parked, None))"

definition handleSendMessage ::
  "config \<Rightarrow> world \<Rightarrow> request \<Rightarrow> state \<Rightarrow> state \<times> reply \<times> outcome option" where
  "handleSendMessage cfg w req s =
     (case validateSend req s of
        Inl r \<Rightarrow> (s, r, None)
      | Inr b \<Rightarrow> admit cfg w (conn req) b s)"

definition handleDelete :: "config \<Rightarrow> request \<Rightarrow> state \<Rightarrow> state \<times> reply" where
  "handleDelete cfg req s =
     (if method req \<noteq> ''GET'' then (s, Reply (Response 405 (Text ''Method Not Allowed'')))
      else if authorization req \<noteq> Some (bearer cfg)
      then (s, Reply (Response 401 (Text ''Unauthorized'')))
      else
        (s\<lparr>alarm_slot := None, balances := Map.empty, names := Map.empty, messages := Map.empty,
           batch := [], pendingRequests := [], processing := False\<rparr>,
         Reply (Response 200 DeleteJson)))"

subsection \<open>fetch and alarm\<close>

definition quiet :: "state \<times> reply \<Rightarrow> state \<times> reply \<times> outcome option" where
  "quiet r = (fst r, snd r, None)"

text \<open>The \<^verbatim>\<open>switch\<close> of \<^verbatim>\<open>fetch\<close>: the handler's result, or \<open>None\<close> when a \<^verbatim>\<open>break\<close> or no
  \<^verbatim>\<open>case\<close> leads to the last statement of the \<^verbatim>\<open>try\<close> block.\<close>

definition route ::
  "config \<Rightarrow> world \<Rightarrow> request \<Rightarrow> state \<Rightarrow> (state \<times> reply \<times> outcome option) option" where
  "route cfg w req s =
     (if method req = ''OPTIONS'' then Some (s, Reply (handleOptions req), None)
      else if pathname req = ''/register'' then
        (if method req = ''PUT'' then Some (quiet (handleRegister cfg w req s)) else None)
      else if pathname req = ''/messages'' then
        (if method req = ''POST'' then Some (handleSendMessage cfg w req s)
         else if method req = ''GET'' then Some (quiet (handleReplayMessages req s))
         else None)
      else if pathname req = ''/balance'' then
        (if method req = ''GET'' then Some (quiet (handleGetBalance req s)) else None)
      else if pathname req = ''/clients'' then
        (if method req = ''GET'' then Some (quiet (handleListClients cfg req s)) else None)
      else if pathname req = ''/delete'' then
        (if method req = ''GET'' then Some (quiet (handleDelete cfg req s)) else None)
      else None)"

definition fetch ::
  "config \<Rightarrow> world \<Rightarrow> request \<Rightarrow> state \<Rightarrow> state \<times> reply \<times> outcome option" where
  "fetch cfg w req s =
     (case route cfg w req s of
        None \<Rightarrow> (s, Reply (Response 404 (Text ''Not found'')), None)
      | Some (s', Throws, oc) \<Rightarrow> (s', Reply (Response 500 (Text ''Internal Server Error'')), oc)
      | Some r \<Rightarrow> r)"

definition alarm :: "config \<Rightarrow> world \<Rightarrow> state \<Rightarrow> state \<times> outcome option" where
  "alarm cfg w s =
     (if length (batch s) > 0
      then (case processBatch cfg w s of (s', oc) \<Rightarrow> (s', Some oc))
      else (s, None))"

text \<open>
  The runtime calls \<^verbatim>\<open>alarm()\<close> when the armed time has come, and the slot is empty from
  then on unless the handler arms it again. With no alarm armed, or before its time,
  nothing happens. (When the handler throws, the runtime calls it again later; that call
  finds the new instance, whose batch is empty, and does nothing.)
\<close>

definition alarm_fires :: "config \<Rightarrow> world \<Rightarrow> state \<Rightarrow> state \<times> outcome option" where
  "alarm_fires cfg w s =
     (case alarm_slot s of
        None \<Rightarrow> (s, None)
      | Some t \<Rightarrow> if now w < t then (s, None) else alarm cfg w (s\<lparr>alarm_slot := None\<rparr>))"

subsection \<open>Executions\<close>

text \<open>The scheduler handles one event at a time: a request, or the alarm.\<close>

datatype event = Request world request | AlarmFires world

fun step :: "config \<Rightarrow> state \<Rightarrow> event \<Rightarrow> state" where
  "step cfg s (Request w req) = fst (fetch cfg w req s)"
| "step cfg s (AlarmFires w) = fst (alarm_fires cfg w s)"

definition run :: "config \<Rightarrow> state \<Rightarrow> event list \<Rightarrow> state" where
  "run cfg s es = foldl (step cfg) s es"

subsection \<open>Vocabulary of the properties\<close>

text \<open>
  Bid \<open>b\<close> is, among the bids of token \<open>t\<close> in the batch, the earliest one of the highest
  amount: every bid of \<open>t\<close> admitted before it is strictly smaller, none admitted after
  it is larger.
\<close>

definition earliest_highest :: "bid_entry list \<Rightarrow> string \<Rightarrow> bid_entry \<Rightarrow> bool" where
  "earliest_highest bids t b \<longleftrightarrow>
     (\<exists>pre post. bids = pre @ b # post \<and> token b = t \<and>
        (\<forall>x\<in>set pre. token x = t \<longrightarrow> bid x < bid b) \<and>
        (\<forall>x\<in>set post. token x = t \<longrightarrow> bid x \<le> bid b))"

text \<open>The bid an event admits to the batch, if it admits one: the request is routed to
  \<^verbatim>\<open>handleSendMessage\<close> and passes its checks.\<close>

fun admission :: "state \<Rightarrow> event \<Rightarrow> bid_entry option" where
  "admission s (Request w req) =
     (if method req = ''POST'' \<and> pathname req = ''/messages''
      then (case validateSend req s of Inr b \<Rightarrow> Some b | Inl r \<Rightarrow> None)
      else None)"
| "admission s (AlarmFires w) = None"








fun resets :: "config \<Rightarrow> event \<Rightarrow> bool" where
  "resets cfg (Request w req) =
     (method req = ''GET'' \<and> pathname req = ''/delete'' \<and> authorization req = Some (bearer cfg))"
| "resets cfg (AlarmFires w) = False"

text \<open>The state after the admin's reset, and the state after a bid has been pushed to
  the batch and the alarm armed if the bid is the first.\<close>

definition reset_state :: "state \<Rightarrow> state" where
  "reset_state s =
     s\<lparr>alarm_slot := None, balances := Map.empty, names := Map.empty,
       messages := Map.empty, batch := [], pendingRequests := [], processing := False\<rparr>"

definition pushed :: "config \<Rightarrow> world \<Rightarrow> bid_entry \<Rightarrow> state \<Rightarrow> state" where
  "pushed cfg w b s =
     s\<lparr>batch := batch s @ [b],
       alarm_slot := (if batch s = [] then Some (now w + timeout cfg) else alarm_slot s)\<rparr>"



text \<open>Every stored balance is a number from 0 to \<open>MAX_BAL\<close>; every bid of the batch is
  positive and its token has a stored balance.\<close>

definition capped :: "config \<Rightarrow> state \<Rightarrow> bool" where
  "capped cfg s \<longleftrightarrow>
     (\<forall>t v. balances s t = Some v \<longrightarrow> (\<exists>b. v = Num b \<and> 0 \<le> b \<and> b \<le> max_bal cfg))"

definition funded :: "state \<Rightarrow> bool" where
  "funded s \<longleftrightarrow> (\<forall>b\<in>set (batch s). 0 < bid b \<and> balances s (token b) \<noteq> None)"

subsection \<open>Concrete executions\<close>

text \<open>
  The default configuration, an environment without faults, and requests to register and
  to bid.
\<close>

definition default_config :: config where
  "default_config =
     \<lparr>N = 5, timeout = 5000, accumulate = 0, start = 10, max_bal = 100,
      ADMIN_TOKEN = Some ''secret''\<rparr>"

definition quiet_world :: world where
  "quiet_world =
     \<lparr>now = 6000, iso = ''1970-01-01T00:00:06.000Z'', rand36 = ''k3x9q'',
      randomBytes = [0, 1, 2, 3, 4, 5, 6, 7, 8, 9, 10, 11], fault = None\<rparr>"

definition at_time :: "int \<Rightarrow> world" where
  "at_time t = quiet_world\<lparr>now := t\<rparr>"

definition register_request :: "string \<Rightarrow> request" where
  "register_request nm =
     \<lparr>method = ''PUT'', pathname = ''/register'', client_token = None, authorization = None,
      json_body = Some \<lparr>field_name = Str nm, field_message = Undefined, field_bid = Undefined\<rparr>,
      conn = 0\<rparr>"

definition bid_request :: "string \<Rightarrow> string \<Rightarrow> int \<Rightarrow> nat \<Rightarrow> request" where
  "bid_request tok msg amount c =
     \<lparr>method = ''POST'', pathname = ''/messages'', client_token = Some tok, authorization = None,
      json_body = Some \<lparr>field_name = Undefined, field_message = Str msg, field_bid = Number amount\<rparr>,
      conn = c\<rparr>"

text \<open>
  An execution from the initial state: two clients register, the first bids 5 and the
  second 7, and the alarm fires at its time.
\<close>

definition demo_events :: "event list" where
  "demo_events =
     [Request (at_time 1000) (register_request ''Alice''),
      Request ((at_time 2000)\<lparr>randomBytes := [248, 1, 2, 3, 4, 5, 6, 7, 8, 9, 10, 11]\<rparr>)
        (register_request ''Bob''),
      Request (at_time 3000) (bid_request ''AAECAwQFBgcICQoL'' ''x'' 5 1),
      Request (at_time 4000) (bid_request ''AECAwQFBgcICQoL'' ''y'' 7 2),
      AlarmFires (at_time 8000)]"

text \<open>
  A round that is waiting for its alarm: three clients register; the first bids 2, then
  4, then 3, the second bids 5, and the third has not bid. All four requests are parked.
  Then the request with which the third client bids 1, and the environment in which the
  alarm fires and the multi-get of the balances throws.
\<close>

definition round_events :: "event list" where
  "round_events =
     [Request (at_time 1000) (register_request ''Alice''),
      Request ((at_time 2000)\<lparr>randomBytes := [248, 1, 2, 3, 4, 5, 6, 7, 8, 9, 10, 11]\<rparr>)
        (register_request ''Bob''),
      Request ((at_time 2500)\<lparr>randomBytes := [12, 13, 14, 15, 16, 17, 18, 19, 20, 21, 22, 23]\<rparr>)
        (register_request ''Carol''),
      Request (at_time 3000) (bid_request ''AAECAwQFBgcICQoL'' ''a'' 2 1),
      Request (at_time 3100) (bid_request ''AAECAwQFBgcICQoL'' ''b'' 4 2),
      Request (at_time 3200) (bid_request ''AAECAwQFBgcICQoL'' ''c'' 3 3),
      Request (at_time 3300) (bid_request ''AECAwQFBgcICQoL'' ''d'' 5 4)]"

definition round_state :: state where
  "round_state = run default_config init round_events"

definition carol_request :: request where
  "carol_request = bid_request ''DA0ODxAREhMUFRYX'' ''e'' 1 5"

definition failing_world :: world where
  "failing_world = (at_time 8000)\<lparr>fault := Some GetBalances\<rparr>"


text \<open>The bids of such a round, with short tokens.\<close>

definition s3_batch :: "bid_entry list" where
  "s3_batch =
     [\<lparr>token = ''A'', message = Str ''a'', bid = 2\<rparr>,
      \<lparr>token = ''A'', message = Str ''b'', bid = 4\<rparr>,
      \<lparr>token = ''A'', message = Str ''c'', bid = 3\<rparr>,
      \<lparr>token = ''B'', message = Str ''d'', bid = 5\<rparr>]"

section \<open>Properties\<close>

subsection \<open>Token generation\<close>

lemma length_btoa_12:
  assumes "length bs = 12"
  shows "length (btoa bs) = 16"
proof -
  from assms obtain b1 b2 b3 b4 b5 b6 b7 b8 b9 b10 b11 b12 where
    "bs = [b1, b2, b3, b4, b5, b6, b7, b8, b9, b10, b11, b12]"
    by (auto simp: length_Suc_conv eval_nat_numeral)
  then show ?thesis by simp
qed

text \<open>
  Claim C9, as amended. For 12 random bytes the token has no \<^verbatim>\<open>+\<close> and no \<^verbatim>\<open>/\<close>, and its
  length is 16 less the number of \<^verbatim>\<open>+\<close> and \<^verbatim>\<open>/\<close> in the base64 text of the bytes: the 16
  characters of that text are stripped first, and \<^verbatim>\<open>slice(0, 16)\<close> then has nothing to cut.
\<close>

theorem generateToken_length:
  assumes "length bs = 12"
  shows "length (generateToken bs) =
           16 - length (filter (\<lambda>c. c = CHR ''+'' \<or> c = CHR ''/'') (btoa bs))
         \<and> CHR ''+'' \<notin> set (generateToken bs) \<and> CHR ''/'' \<notin> set (generateToken bs)"
proof -
  have l: "length (btoa bs) = 16" using assms by (rule length_btoa_12)
  have "length (filter (\<lambda>c. c \<noteq> CHR ''+'' \<and> c \<noteq> CHR ''/'') (btoa bs))
      + length (filter (\<lambda>c. \<not> (c \<noteq> CHR ''+'' \<and> c \<noteq> CHR ''/'')) (btoa bs)) = 16"
    using sum_length_filter_compl [of "\<lambda>c. c \<noteq> CHR ''+'' \<and> c \<noteq> CHR ''/''" "btoa bs"] l
    by simp
  then have "length (strip_plus_slash (btoa bs)) =
      16 - length (filter (\<lambda>c. c = CHR ''+'' \<or> c = CHR ''/'') (btoa bs))"
    by (simp add: strip_plus_slash_def)
  moreover have "set (generateToken bs) \<subseteq> set (strip_plus_slash (btoa bs))"
    unfolding generateToken_def by (rule set_take_subset)
  ultimately show ?thesis
    by (auto simp: generateToken_def strip_plus_slash_def)
qed

text \<open>The bytes \<open>f8 01 02 ... 0b\<close> encode to a text that starts with \<^verbatim>\<open>+\<close>: the token has
  15 characters.\<close>

theorem generateToken_length_witness:
  "length [248, 1, 2, 3, 4, 5, 6, 7, 8, 9, 10, 11 :: 8 word] = 12
   \<and> generateToken [248, 1, 2, 3, 4, 5, 6, 7, 8, 9, 10, 11] = ''AECAwQFBgcICQoL''
   \<and> length (generateToken [248, 1, 2, 3, 4, 5, 6, 7, 8, 9, 10, 11]) =
       16 - length (filter (\<lambda>c. c = CHR ''+'' \<or> c = CHR ''/'')
                      (btoa [248, 1, 2, 3, 4, 5, 6, 7, 8, 9, 10, 11]))
   \<and> CHR ''+'' \<notin> set (generateToken [248, 1, 2, 3, 4, 5, 6, 7, 8, 9, 10, 11])
   \<and> CHR ''/'' \<notin> set (generateToken [248, 1, 2, 3, 4, 5, 6, 7, 8, 9, 10, 11])"
proof -
  have h: "length [248, 1, 2, 3, 4, 5, 6, 7, 8, 9, 10, 11 :: 8 word] = 12" by simp
  have v: "generateToken [248, 1, 2, 3, 4, 5, 6, 7, 8, 9, 10, 11] = ''AECAwQFBgcICQoL''"
    by code_simp
  from generateToken_length [OF h] h v show ?thesis by blast
qed

text \<open>Claim C9 as stated fails: when all 12 bytes are \<open>ff\<close> the base64 text is 16 times
  \<^verbatim>\<open>/\<close>, and the token is the empty string.\<close>

theorem generateToken_16_counterexample:
  "length [255, 255, 255, 255, 255, 255, 255, 255, 255, 255, 255, 255 :: 8 word] = 12
   \<and> length (generateToken [255, 255, 255, 255, 255, 255, 255, 255, 255, 255, 255, 255]) \<noteq> 16
   \<and> generateToken [255, 255, 255, 255, 255, 255, 255, 255, 255, 255, 255, 255] = []"
  by code_simp

subsection \<open>Deduplication\<close>

lemma uniqueBidsMap_snoc: "uniqueBidsMap (xs @ [x]) = dedup_step x (uniqueBidsMap xs)"
  by (simp add: uniqueBidsMap_def)

lemma map_of_dedup_step:
  "map_of (dedup_step b m) t =
     (if t = token b then
        (case map_of m t of None \<Rightarrow> Some b
         | Some e \<Rightarrow> if bid b > bid e then Some b else Some e)
      else map_of m t)"
  by (simp add: dedup_step_def update_conv' split: option.splits)

lemma earliest_highest_snoc_other:
  "earliest_highest xs t b \<Longrightarrow> token x \<noteq> t \<Longrightarrow> earliest_highest (xs @ [x]) t b"
  unfolding earliest_highest_def
  apply (elim exE conjE)
  subgoal for pre post
    by (rule exI [of _ pre], rule exI [of _ "post @ [x]"]) auto
  done

lemma earliest_highest_snoc_le:
  "earliest_highest xs t b \<Longrightarrow> bid x \<le> bid b \<Longrightarrow> earliest_highest (xs @ [x]) t b"
  unfolding earliest_highest_def
  apply (elim exE conjE)
  subgoal for pre post
    by (rule exI [of _ pre], rule exI [of _ "post @ [x]"]) auto
  done

lemma earliest_highest_bound:
  "earliest_highest xs t b \<Longrightarrow> y \<in> set xs \<Longrightarrow> token y = t \<Longrightarrow> bid y \<le> bid b"
  unfolding earliest_highest_def
  by (elim exE conjE) (auto simp: order.strict_implies_order)

lemma earliest_highest_snoc_new:
  "token x = t \<Longrightarrow> \<forall>y\<in>set xs. token y = t \<longrightarrow> bid y < bid x \<Longrightarrow>
   earliest_highest (xs @ [x]) t x"
  unfolding earliest_highest_def
  by (rule exI [of _ xs], rule exI [of _ "[]"]) auto

lemma uniqueBidsMap_lookup:
  "(t \<notin> token ` set xs \<longrightarrow> map_of (uniqueBidsMap xs) t = None) \<and>
   (t \<in> token ` set xs \<longrightarrow>
      (\<exists>b. map_of (uniqueBidsMap xs) t = Some b \<and> earliest_highest xs t b))"
proof (induction xs rule: rev_induct)
  case Nil
  show ?case by (simp add: uniqueBidsMap_def)
next
  case (snoc x xs)
  show ?case
  proof (cases "t = token x")
    case False
    then have other: "token x \<noteq> t" by simp
    have mem: "t \<in> token ` set (xs @ [x]) \<longleftrightarrow> t \<in> token ` set xs"
      using False by auto
    have same: "map_of (uniqueBidsMap (xs @ [x])) t = map_of (uniqueBidsMap xs) t"
      using False by (simp add: uniqueBidsMap_snoc map_of_dedup_step)
    show ?thesis
      unfolding mem same using snoc earliest_highest_snoc_other [OF _ other] by blast
  next
    case True
    show ?thesis
    proof (cases "t \<in> token ` set xs")
      case False
      with snoc have "map_of (uniqueBidsMap xs) t = None" by simp
      moreover have "\<forall>y\<in>set xs. token y = t \<longrightarrow> bid y < bid x"
        using False by (metis imageI)
      then have "earliest_highest (xs @ [x]) t x"
        using True by (intro earliest_highest_snoc_new) auto
      ultimately show ?thesis using True
        by (simp add: uniqueBidsMap_snoc map_of_dedup_step)
    next
      case in_xs: True
      with snoc obtain e where
        e: "map_of (uniqueBidsMap xs) t = Some e" "earliest_highest xs t e" by auto
      show ?thesis
      proof (cases "bid x > bid e")
        case gt: True
        have "\<forall>y\<in>set xs. token y = t \<longrightarrow> bid y < bid x"
          using earliest_highest_bound [OF e(2)] gt by fastforce
        then have "earliest_highest (xs @ [x]) t x"
          using True by (intro earliest_highest_snoc_new) auto
        then show ?thesis using True e gt
          by (simp add: uniqueBidsMap_snoc map_of_dedup_step)
      next
        case False
        then have "earliest_highest (xs @ [x]) t e"
          using e(2) by (intro earliest_highest_snoc_le) auto
        then show ?thesis using True e False
          by (simp add: uniqueBidsMap_snoc map_of_dedup_step)
      qed
    qed
  qed
qed

lemma distinct_dedup_step: "distinct (map fst m) \<Longrightarrow> distinct (map fst (dedup_step x m))"
  by (simp add: dedup_step_def distinct_update split: option.splits)

lemma uniqueBidsMap_distinct: "distinct (map fst (uniqueBidsMap xs))"
proof (induction xs rule: rev_induct)
  case Nil
  show ?case by (simp add: uniqueBidsMap_def)
next
  case (snoc x xs)
  then show ?case by (simp add: uniqueBidsMap_snoc distinct_dedup_step)
qed

lemma uniqueBidsMap_entry:
  assumes "(k, b) \<in> set (uniqueBidsMap xs)"
  shows "token b = k \<and> earliest_highest xs k b"
proof -
  have m: "map_of (uniqueBidsMap xs) k = Some b"
    using assms uniqueBidsMap_distinct by (simp add: map_of_eq_Some_iff)
  then show ?thesis using uniqueBidsMap_lookup [of k xs]
    by (cases "k \<in> token ` set xs") (auto simp: earliest_highest_def)
qed

lemma map_token_snd:
  "(\<And>k b. (k, b) \<in> set m \<Longrightarrow> token b = k) \<Longrightarrow> map token (map snd m) = map fst m"
  by (induction m) auto

lemma tokens_uniqueBids: "map token (uniqueBids xs) = map fst (uniqueBidsMap xs)"
  unfolding uniqueBids_def by (rule map_token_snd) (simp add: uniqueBidsMap_entry)

lemma distinct_tokens_uniqueBids: "distinct (map token (uniqueBids xs))"
  by (simp add: tokens_uniqueBids uniqueBidsMap_distinct)

lemma set_tokens_uniqueBids: "token ` set (uniqueBids xs) = token ` set xs"
proof -
  have "token ` set (uniqueBids xs) = set (map token (uniqueBids xs))" by simp
  also have "\<dots> = dom (map_of (uniqueBidsMap xs))"
    by (simp only: tokens_uniqueBids dom_map_of_conv_image_fst set_map)
  also have "\<dots> = token ` set xs"
  proof (rule set_eqI)
    fix t
    show "t \<in> dom (map_of (uniqueBidsMap xs)) \<longleftrightarrow> t \<in> token ` set xs"
      using uniqueBidsMap_lookup [of t xs] by (cases "t \<in> token ` set xs") auto
  qed
  finally show ?thesis .
qed

lemma set_sortedBids: "set (sortedBids xs) = set (uniqueBids xs)"
  by (simp add: sortedBids_def)

lemma distinct_tokens_sortedBids: "distinct (map token (sortedBids xs))"
  using distinct_tokens_uniqueBids [of xs] by (simp add: sortedBids_def distinct_map)

lemma sortedBids_Nil: "sortedBids xs = [] \<longleftrightarrow> xs = []"
proof -
  have "sortedBids xs = [] \<longleftrightarrow> token ` set (sortedBids xs) = {}" by simp
  also have "\<dots> \<longleftrightarrow> token ` set xs = {}" by (simp only: set_sortedBids set_tokens_uniqueBids)
  finally show ?thesis by simp
qed

lemma filter_token_unique:
  "distinct (map token xs) \<Longrightarrow> b \<in> set xs \<Longrightarrow> filter (\<lambda>x. token x = token b) xs = [b]"
proof (induction xs)
  case Nil
  then show ?case by simp
next
  case (Cons x xs)
  show ?case
  proof (cases "x = b")
    case True
    then have "token b \<notin> token ` set xs" using Cons.prems by simp
    then have "\<forall>y\<in>set xs. token y \<noteq> token b" by (metis imageI)
    then have "filter (\<lambda>x. token x = token b) xs = []" by (simp add: filter_empty_conv)
    then show ?thesis using True by simp
  next
    case False
    then have "b \<in> set xs" using Cons.prems by simp
    moreover from this have "token x \<noteq> token b" using Cons.prems by auto
    ultimately show ?thesis using Cons by simp
  qed
qed

lemma s3_uniqueBids:
  "uniqueBids s3_batch =
     [\<lparr>token = ''A'', message = Str ''b'', bid = 4\<rparr>, \<lparr>token = ''B'', message = Str ''d'', bid = 5\<rparr>]"
  by code_simp

text \<open>
  Claim C3, as amended. For every token with a bid in the batch, the deduplicated bids
  hold exactly one bid of that token: the one with the largest amount and, among
  admissions of that same largest amount, the earliest (the comparison that replaces a
  kept bid is the strict \<^verbatim>\<open>bid.bid > existingBid.bid\<close>).
\<close>

theorem dedup_keeps_earliest_highest:
  assumes "t \<in> token ` set bids"
  shows "\<exists>b. filter (\<lambda>x. token x = t) (uniqueBids bids) = [b] \<and> earliest_highest bids t b"
proof -
  from uniqueBidsMap_lookup [of t bids] assms obtain b where
    b: "map_of (uniqueBidsMap bids) t = Some b" "earliest_highest bids t b" by auto
  then have "(t, b) \<in> set (uniqueBidsMap bids)" by (simp add: map_of_SomeD)
  then have "b \<in> set (uniqueBids bids)" unfolding uniqueBids_def by force
  moreover have "token b = t" using b(2) by (auto simp: earliest_highest_def)
  ultimately have "filter (\<lambda>x. token x = t) (uniqueBids bids) = [b]"
    using filter_token_unique [OF distinct_tokens_uniqueBids, of b bids] by simp
  with b(2) show ?thesis by blast
qed

theorem dedup_keeps_earliest_highest_witness:
  "''A'' \<in> token ` set s3_batch
   \<and> (\<exists>b. filter (\<lambda>x. token x = ''A'') (uniqueBids s3_batch) = [b]
          \<and> earliest_highest s3_batch ''A'' b)
   \<and> filter (\<lambda>x. token x = ''A'') (uniqueBids s3_batch) =
       [\<lparr>token = ''A'', message = Str ''b'', bid = 4\<rparr>]"
proof -
  have h: "''A'' \<in> token ` set s3_batch" by (simp add: s3_batch_def)
  have v: "filter (\<lambda>x. token x = ''A'') (uniqueBids s3_batch) =
       [\<lparr>token = ''A'', message = Str ''b'', bid = 4\<rparr>]"
    by (simp add: s3_uniqueBids)
  from dedup_keeps_earliest_highest [OF h] h v show ?thesis by blast
qed

text \<open>Claim C3 as stated fails: of two admissions of one token with the same amount,
  the first is kept, not the latest.\<close>

theorem dedup_tie_counterexample:
  "uniqueBids [\<lparr>token = ''A'', message = Str ''first'', bid = 3\<rparr>,
               \<lparr>token = ''A'', message = Str ''second'', bid = 3\<rparr>]
     = [\<lparr>token = ''A'', message = Str ''first'', bid = 3\<rparr>]
   \<and> uniqueBids [\<lparr>token = ''A'', message = Str ''first'', bid = 3\<rparr>,
                 \<lparr>token = ''A'', message = Str ''second'', bid = 3\<rparr>]
     \<noteq> [\<lparr>token = ''A'', message = Str ''second'', bid = 3\<rparr>]"
  by (simp add: uniqueBids_def uniqueBidsMap_def dedup_step_def)

lemma sortedBids_ranked: "sorted_wrt (\<lambda>a b. bid b \<le> bid a) (sortedBids bids)"
proof -
  have "sorted (map (\<lambda>b. - bid b) (sortedBids bids))" by (simp add: sortedBids_def)
  then show ?thesis by (simp add: sorted_map sorted_wrt_iff_nth_less)
qed

lemma round_sortedBids:
  "sortedBids (batch round_state) =
     [\<lparr>token = ''AECAwQFBgcICQoL'', message = Str ''d'', bid = 5\<rparr>,
      \<lparr>token = ''AAECAwQFBgcICQoL'', message = Str ''b'', bid = 4\<rparr>]"
  by code_simp

lemma round_idle: "\<not> processing round_state"
  by code_simp

subsection \<open>The Maps of processBatch\<close>

lemma map_of_loadMap_fold:
  "map_of (fold (\<lambda>t m. AList.update t (st t) m) ts m0) t =
     (if t \<in> set ts then Some (st t) else map_of m0 t)"
  by (induction ts arbitrary: m0) (auto simp: update_conv')

lemma map_of_loadMap: "map_of (loadMap st ts) t = (if t \<in> set ts then Some (st t) else None)"
  by (simp add: loadMap_def map_of_loadMap_fold)

lemma distinct_loadMap_fold:
  "distinct (map fst m0) \<Longrightarrow> distinct (map fst (fold (\<lambda>t m. AList.update t (st t) m) ts m0))"
  by (induction ts arbitrary: m0) (auto simp: distinct_update)

lemma distinct_loadMap: "distinct (map fst (loadMap st ts))"
  by (simp add: loadMap_def distinct_loadMap_fold)

lemma map_get_loadMap: "map_get (loadMap st ts) t = (if t \<in> set ts then st t else None)"
  by (simp add: map_get_def map_of_loadMap)

lemma map_of_loser_fold:
  "distinct (map token bs) \<Longrightarrow>
   map_of (fold (loser_step cfg w) bs m0) t =
     (if t \<in> token ` set bs \<and> t \<noteq> w
      then Some (Some (js_min (max_bal cfg) (js_add (map_get m0 t) (accumulate cfg))))
      else map_of m0 t)"
proof (induction bs arbitrary: m0)
  case Nil
  show ?case by simp
next
  case (Cons b bs)
  have d: "distinct (map token bs)" and nb: "token b \<notin> token ` set bs"
    using Cons.prems by auto
  have step: "map_get (loser_step cfg w b m0) t' = map_get m0 t'" if "t' \<noteq> token b" for t'
    using that by (simp add: loser_step_def map_get_def update_conv')
  show ?case
  proof (cases "t = token b")
    case True
    then have "t \<notin> token ` set bs" using nb by simp
    then show ?thesis using True Cons.IH [OF d, of "loser_step cfg w b m0"]
      by (simp add: loser_step_def update_conv')
  next
    case False
    have m: "map_of (loser_step cfg w b m0) t = map_of m0 t"
      using False by (simp add: loser_step_def update_conv')
    have "map_of (fold (loser_step cfg w) (b # bs) m0) t =
        map_of (fold (loser_step cfg w) bs (loser_step cfg w b m0)) t" by simp
    also have "\<dots> = (if t \<in> token ` set bs \<and> t \<noteq> w
      then Some (Some (js_min (max_bal cfg) (js_add (map_get m0 t) (accumulate cfg))))
      else map_of m0 t)"
      unfolding Cons.IH [OF d] step [OF False] m ..
    finally show ?thesis using False by simp
  qed
qed

lemma distinct_loser_fold:
  "distinct (map fst m0) \<Longrightarrow> distinct (map fst (fold (loser_step cfg w) bs m0))"
  by (induction bs arbitrary: m0) (auto simp: loser_step_def distinct_update)

lemma put_all_distinct:
  "distinct (map fst es) \<Longrightarrow>
   put_all es st t = (case map_of es t of Some v \<Rightarrow> v | None \<Rightarrow> st t)"
  unfolding put_all_def
proof (induction es arbitrary: st)
  case Nil
  show ?case by simp
next
  case (Cons e es)
  obtain k v where e: "e = (k, v)" by (cases e)
  have d: "distinct (map fst es)" and nk: "k \<notin> fst ` set es" using Cons.prems e by auto
  have "map_of es k = None" using nk by (simp add: map_of_eq_None_iff)
  then show ?case using Cons.IH [OF d, of "st(k := v)"] e
    by (auto split: option.splits)
qed

lemma updatedBalances_lookup:
  assumes "sortedBids bids = hb # rest"
  shows "map_of (updatedBalances cfg st bids) t =
     (if t \<in> token ` set bids
      then Some (Some (if t = token hb
                       then clamp0 (js_sub (st t) (secondHighestBid (hb # rest)))
                       else js_min (max_bal cfg) (js_add (st t) (accumulate cfg))))
      else None)"
proof -
  define ld where "ld = loadMap st (map token (uniqueBids bids))"
  define hv where "hv = clamp0 (js_sub (map_get ld (token hb)) (secondHighestBid (hb # rest)))"
  define m1 where "m1 = AList.update (token hb) (Some hv) ld"
  define srt where "srt = hb # rest"
  have ub: "updatedBalances cfg st bids = fold (loser_step cfg (token hb)) srt m1"
    using assms by (simp add: updatedBalances_def Let_def ld_def hv_def m1_def srt_def)
  have d: "distinct (map token srt)"
    using distinct_tokens_sortedBids [of bids] assms by (simp add: srt_def)
  have toks: "token ` set srt = token ` set bids"
    using set_sortedBids [of bids] set_tokens_uniqueBids [of bids] assms by (simp add: srt_def)
  have hbin: "token hb \<in> token ` set bids" using toks by (auto simp: srt_def)
  have ld: "map_get ld t' = (if t' \<in> token ` set bids then st t' else None)" for t'
    unfolding ld_def map_get_loadMap using set_tokens_uniqueBids [of bids] by simp
  have ldm: "map_of ld t' = (if t' \<in> token ` set bids then Some (st t') else None)" for t'
    unfolding ld_def map_of_loadMap using set_tokens_uniqueBids [of bids] by simp
  have hv: "hv = clamp0 (js_sub (st (token hb)) (secondHighestBid (hb # rest)))"
    unfolding hv_def ld using hbin by simp
  have m1_same: "map_of m1 (token hb) = Some (Some hv)"
    by (simp add: m1_def update_conv')
  have m1_other: "map_of m1 t' = map_of ld t'" "map_get m1 t' = map_get ld t'"
    if "t' \<noteq> token hb" for t'
    using that by (simp_all add: m1_def map_get_def update_conv')
  have fold: "map_of (fold (loser_step cfg (token hb)) srt m1) t =
     (if t \<in> token ` set bids \<and> t \<noteq> token hb
      then Some (Some (js_min (max_bal cfg) (js_add (map_get m1 t) (accumulate cfg))))
      else map_of m1 t)"
    unfolding map_of_loser_fold [OF d] toks ..
  show ?thesis
  proof (cases "t = token hb")
    case True
    then show ?thesis unfolding ub fold using hbin m1_same hv by simp
  next
    case False
    show ?thesis unfolding ub fold m1_other [OF False] ld ldm using False by simp
  qed
qed

lemma updatedBalances_distinct: "distinct (map fst (updatedBalances cfg st bids))"
proof (cases "sortedBids bids")
  case Nil
  then show ?thesis by (simp add: updatedBalances_def)
next
  case (Cons hb rest)
  have "updatedBalances cfg st bids =
      fold (loser_step cfg (token hb)) (hb # rest)
        (AList.update (token hb)
          (Some (clamp0 (js_sub (map_get (loadMap st (map token (uniqueBids bids))) (token hb))
             (secondHighestBid (hb # rest)))))
          (loadMap st (map token (uniqueBids bids))))"
    using Cons by (simp add: updatedBalances_def Let_def)
  moreover have "distinct (map fst (AList.update (token hb)
          (Some (clamp0 (js_sub (map_get (loadMap st (map token (uniqueBids bids))) (token hb))
             (secondHighestBid (hb # rest)))))
          (loadMap st (map token (uniqueBids bids)))))"
    by (rule distinct_update) (rule distinct_loadMap)
  ultimately show ?thesis by (simp only: distinct_loser_fold)
qed

text \<open>What the multi-put of the balances leaves in the storage.\<close>

lemma put_updatedBalances:
  assumes "sortedBids bids = hb # rest"
  shows "put_all (updatedBalances cfg st bids) st t =
     (if t \<in> token ` set bids
      then Some (if t = token hb
                 then clamp0 (js_sub (st t) (secondHighestBid (hb # rest)))
                 else js_min (max_bal cfg) (js_add (st t) (accumulate cfg)))
      else st t)"
  by (simp add: put_all_distinct [OF updatedBalances_distinct] updatedBalances_lookup [OF assms])

subsection \<open>processBatch\<close>

lemma processBatch_settles:
  assumes "\<not> processing s" "fault w = None" "sortedBids (batch s) = hb # rest"
  shows "processBatch cfg w s =
    (s\<lparr>batch := [], pendingRequests := [], processing := False, alarm_slot := None,
       balances := put_all (updatedBalances cfg (balances s) (batch s)) (balances s),
       messages := (messages s)((now w, rand36 w) \<mapsto>
          \<lparr>accepted_message = message hb, bidderToken = token hb,
           bidderName = map_get (loadMap (names s) (map token (uniqueBids (batch s)))) (token hb),
           timestamp = iso w\<rparr>)\<rparr>,
     Settled \<lparr>settled = batch s,
        accepted = \<lparr>accepted_message = message hb, bidderToken = token hb,
           bidderName = map_get (loadMap (names s) (map token (uniqueBids (batch s)))) (token hb),
           timestamp = iso w\<rparr>,
        resolved = map (\<lambda>p. (resolve p, Response 200 (SettlementJson
            (map_of (responses (batch s) hb
               \<lparr>winBid = secondHighestBid (hb # rest), sumBid = sum_list (map bid (hb # rest)),
                nBids = length (uniqueBids (batch s))\<rparr>
               (updatedBalances cfg (balances s) (batch s))
               (loadMap (names s) (map token (uniqueBids (batch s)))))
             (pending_token p))))) (pendingRequests s)\<rparr>)"
  using assms
  by (simp add: processBatch_def blockConcurrencyWhile_def processBatch_callback_def Let_def)

lemma processBatch_skips: "processing s \<Longrightarrow> processBatch cfg w s = (s, Skipped)"
  by (simp add: processBatch_def)

text \<open>A run that a storage operation aborts, field by field.\<close>

lemma processBatch_aborts:
  assumes "\<not> processing s" "fault w = Some op"
  shows "\<exists>a. snd (processBatch cfg w s) = Aborted a \<and> dropped a = batch s \<and>
           broken a = map (\<lambda>p. (resolve p, Response 500 RuntimeError)) (pendingRequests s) \<and>
           thrown_by a = (if batch s = [] \<and> (op = PutBalances \<or> op = PutMessage)
                          then TypeError else StorageError op)"
    and "batch (fst (processBatch cfg w s)) = []"
    and "pendingRequests (fst (processBatch cfg w s)) = []"
    and "\<not> processing (fst (processBatch cfg w s))"
    and "messages (fst (processBatch cfg w s)) = messages s"
    and "names (fst (processBatch cfg w s)) = names s"
    and "alarm_slot (fst (processBatch cfg w s)) = (if op = DeleteAlarm then alarm_slot s else None)"
    and "balances (fst (processBatch cfg w s)) =
           (if op = PutMessage \<and> batch s \<noteq> []
            then put_all (updatedBalances cfg (balances s) (batch s)) (balances s)
            else balances s)"
proof -
  have e: "sortedBids (batch s) = [] \<longleftrightarrow> batch s = []" by (rule sortedBids_Nil)
  note defs = processBatch_def blockConcurrencyWhile_def processBatch_callback_def
    object_reset_def Let_def
  show "\<exists>a. snd (processBatch cfg w s) = Aborted a \<and> dropped a = batch s \<and>
           broken a = map (\<lambda>p. (resolve p, Response 500 RuntimeError)) (pendingRequests s) \<and>
           thrown_by a = (if batch s = [] \<and> (op = PutBalances \<or> op = PutMessage)
                          then TypeError else StorageError op)"
    using assms e by (cases op; cases "sortedBids (batch s)") (simp_all add: defs)
  show "batch (fst (processBatch cfg w s)) = []"
    using assms by (cases op; cases "sortedBids (batch s)") (simp_all add: defs)
  show "pendingRequests (fst (processBatch cfg w s)) = []"
    using assms by (cases op; cases "sortedBids (batch s)") (simp_all add: defs)
  show "\<not> processing (fst (processBatch cfg w s))"
    using assms by (cases op; cases "sortedBids (batch s)") (simp_all add: defs)
  show "messages (fst (processBatch cfg w s)) = messages s"
    using assms by (cases op; cases "sortedBids (batch s)") (simp_all add: defs)
  show "names (fst (processBatch cfg w s)) = names s"
    using assms by (cases op; cases "sortedBids (batch s)") (simp_all add: defs)
  show "alarm_slot (fst (processBatch cfg w s)) = (if op = DeleteAlarm then alarm_slot s else None)"
    using assms by (cases op; cases "sortedBids (batch s)") (simp_all add: defs)
  show "balances (fst (processBatch cfg w s)) =
           (if op = PutMessage \<and> batch s \<noteq> []
            then put_all (updatedBalances cfg (balances s) (batch s)) (balances s)
            else balances s)"
    using assms e by (cases op; cases "sortedBids (batch s)") (simp_all add: defs)
qed

lemma processBatch_TypeError:
  assumes "\<not> processing s" "batch s = []" "fault w = None"
  shows "processBatch cfg w s =
     (s\<lparr>alarm_slot := None, batch := [], pendingRequests := [], processing := False\<rparr>,
      Aborted \<lparr>thrown_by = TypeError,
               broken = map (\<lambda>p. (resolve p, Response 500 RuntimeError)) (pendingRequests s),
               dropped = []\<rparr>)"
proof -
  have "sortedBids (batch s) = []" using assms(2) by (simp add: sortedBids_Nil)
  then show ?thesis using assms
    by (simp add: processBatch_def blockConcurrencyWhile_def processBatch_callback_def
        object_reset_def Let_def)
qed

lemma processBatch_cases:
  assumes "processBatch cfg w s = (s', oc)"
  shows "names s' = names s \<and> (batch s' = batch s \<or> batch s' = []) \<and>
     (balances s' = balances s \<or>
      (batch s \<noteq> [] \<and>
       balances s' = put_all (updatedBalances cfg (balances s) (batch s)) (balances s)))"
proof (cases "processing s")
  case True
  then show ?thesis using assms by (simp add: processBatch_skips)
next
  case idle: False
  show ?thesis
  proof (cases "fault w")
    case (Some op)
    from processBatch_aborts(2,6,8) [OF idle Some, of cfg] assms show ?thesis
      by (auto split: if_splits)
  next
    case None
    show ?thesis
    proof (cases "sortedBids (batch s)")
      case Nil
      then have "batch s = []" by (simp add: sortedBids_Nil)
      from processBatch_TypeError [OF idle this None, of cfg] assms show ?thesis by auto
    next
      case (Cons hb rest)
      then have "batch s \<noteq> []" using sortedBids_Nil [of "batch s"] by auto
      with processBatch_settles [OF idle None Cons, of cfg] assms show ?thesis by auto
    qed
  qed
qed


lemma processBatch_clean:
  assumes "\<not> processing s" "fault w = None" "batch s \<noteq> []"
  shows "\<exists>s' r. processBatch cfg w s = (s', Settled r) \<and> settled r = batch s \<and>
           batch s' = [] \<and> pendingRequests s' = [] \<and> alarm_slot s' = None \<and>
           \<not> processing s' \<and> length (resolved r) = length (pendingRequests s)"
proof -
  from assms(3) obtain hb rest where "sortedBids (batch s) = hb # rest"
    using sortedBids_Nil [of "batch s"] by (cases "sortedBids (batch s)") auto
  from processBatch_settles [OF assms(1,2) this, of cfg] show ?thesis by simp
qed

lemma pushed_simps:
  "batch (pushed cfg w b s) = batch s @ [b]"
  "processing (pushed cfg w b s) = processing s"
  "balances (pushed cfg w b s) = balances s"
  "pendingRequests (pushed cfg w b s) = pendingRequests s"
  "messages (pushed cfg w b s) = messages s"
  "alarm_slot (pushed cfg w b s) = (if batch s = [] then Some (now w + timeout cfg) else alarm_slot s)"
  by (simp_all add: pushed_def)

subsection \<open>The Vickrey rule\<close>

text \<open>
  Claim C1. A settlement of a non-empty batch ranks the deduplicated bids, highest first;
  \<open>winner\<close> is the first of them and \<open>rest\<close> the others. With a second bidder the
  winner's stored balance becomes the maximum of 0 and its balance less the second bid;
  with no other bidder it stays what it was. (In that case the code still clamps at 0,
  so the balance must not be negative: an admitted bid is positive and at most the
  balance.)
\<close>

theorem vickrey_rule:
  assumes "\<not> processing s" and "fault w = None"
    and "sortedBids (batch s) = winner # rest"
    and "balances s (token winner) = Some (Num before)"
    and "rest = [] \<longrightarrow> 0 \<le> before"
  shows "balances (fst (processBatch cfg w s)) (token winner) =
           Some (Num (case rest of [] \<Rightarrow> before | second # _ \<Rightarrow> max 0 (before - bid second)))
         \<and> sorted_wrt (\<lambda>a b. bid b \<le> bid a) (winner # rest)
         \<and> set (winner # rest) = set (uniqueBids (batch s))
         \<and> length (winner # rest) = length (uniqueBids (batch s))"
proof -
  have in_batch: "token winner \<in> token ` set (batch s)"
    using set_sortedBids [of "batch s"] set_tokens_uniqueBids [of "batch s"] assms(3) by auto
  have "balances (fst (processBatch cfg w s)) (token winner) =
      Some (clamp0 (js_sub (balances s (token winner)) (secondHighestBid (winner # rest))))"
    using in_batch
    by (simp add: processBatch_settles [OF assms(1-3)] put_updatedBalances [OF assms(3)])
  also have "\<dots> =
      Some (Num (case rest of [] \<Rightarrow> before | second # _ \<Rightarrow> max 0 (before - bid second)))"
    using assms(4,5) by (cases rest) (auto simp: secondHighestBid_def clamp0_def max_def)
  finally have main: "balances (fst (processBatch cfg w s)) (token winner) =
      Some (Num (case rest of [] \<Rightarrow> before | second # _ \<Rightarrow> max 0 (before - bid second)))" .
  have "sorted_wrt (\<lambda>a b. bid b \<le> bid a) (winner # rest)"
    using sortedBids_ranked [of "batch s"] assms(3) by simp
  moreover have "set (winner # rest) = set (uniqueBids (batch s))"
    using set_sortedBids [of "batch s"] assms(3) by simp
  moreover have "length (winner # rest) = length (uniqueBids (batch s))"
    using assms(3) [symmetric] by (simp add: sortedBids_def)
  ultimately show ?thesis using main by blast
qed

text \<open>In the round that is waiting the second client wins with 5 and pays 4; in the
  other execution, cut after the first bid, the only bidder wins and keeps its 10.\<close>

theorem vickrey_rule_witness:
  "\<not> processing round_state \<and> fault quiet_world = None
   \<and> sortedBids (batch round_state) =
       [\<lparr>token = ''AECAwQFBgcICQoL'', message = Str ''d'', bid = 5\<rparr>,
        \<lparr>token = ''AAECAwQFBgcICQoL'', message = Str ''b'', bid = 4\<rparr>]
   \<and> balances round_state ''AECAwQFBgcICQoL'' = Some (Num 10)
   \<and> balances (fst (processBatch default_config quiet_world round_state)) ''AECAwQFBgcICQoL''
       = Some (Num 6)
   \<and> \<not> processing (run default_config init (take 3 demo_events))
   \<and> sortedBids (batch (run default_config init (take 3 demo_events))) =
       [\<lparr>token = ''AAECAwQFBgcICQoL'', message = Str ''x'', bid = 5\<rparr>]
   \<and> balances (run default_config init (take 3 demo_events)) ''AAECAwQFBgcICQoL'' = Some (Num 10)
   \<and> balances (fst (processBatch default_config quiet_world
         (run default_config init (take 3 demo_events)))) ''AAECAwQFBgcICQoL'' = Some (Num 10)"
proof -
  have h1: "\<not> processing round_state" by (rule round_idle)
  have h2: "fault quiet_world = None" by (simp add: quiet_world_def)
  have h3: "sortedBids (batch round_state) =
       \<lparr>token = ''AECAwQFBgcICQoL'', message = Str ''d'', bid = 5\<rparr>
         # [\<lparr>token = ''AAECAwQFBgcICQoL'', message = Str ''b'', bid = 4\<rparr>]"
    by (simp add: round_sortedBids)
  have h4: "balances round_state
       (token \<lparr>token = ''AECAwQFBgcICQoL'', message = Str ''d'', bid = 5\<rparr>) = Some (Num 10)"
    by code_simp
  have h5: "[\<lparr>token = ''AAECAwQFBgcICQoL'', message = Str ''b'', bid = 4\<rparr>] = []
      \<longrightarrow> (0::int) \<le> 10" by simp
  have g1: "\<not> processing (run default_config init (take 3 demo_events))" by code_simp
  have g3: "sortedBids (batch (run default_config init (take 3 demo_events))) =
       \<lparr>token = ''AAECAwQFBgcICQoL'', message = Str ''x'', bid = 5\<rparr> # []" by code_simp
  have g4: "balances (run default_config init (take 3 demo_events))
       (token \<lparr>token = ''AAECAwQFBgcICQoL'', message = Str ''x'', bid = 5\<rparr>) = Some (Num 10)"
    by code_simp
  have g5: "([] :: bid_entry list) = [] \<longrightarrow> (0::int) \<le> 10" by simp
  from vickrey_rule [OF h1 h2 h3 h4 h5, of default_config]
    vickrey_rule [OF g1 h2 g3 g4 g5, of default_config] h1 h2 h3 h4 g1 g3 g4
  show ?thesis by simp
qed

subsection \<open>Clients who did not bid\<close>

lemma keys_updatedBalances:
  "fst ` set (updatedBalances cfg st bids) = token ` set (uniqueBids bids)"
proof (cases "sortedBids bids")
  case Nil
  then show ?thesis using sortedBids_Nil [of bids]
    by (simp add: updatedBalances_def uniqueBids_def uniqueBidsMap_def)
next
  case (Cons hb rest)
  have "fst ` set (updatedBalances cfg st bids) = dom (map_of (updatedBalances cfg st bids))"
    by (simp add: dom_map_of_conv_image_fst)
  also have "\<dots> = token ` set bids"
    by (auto simp: dom_def updatedBalances_lookup [OF Cons])
  finally show ?thesis by (simp add: set_tokens_uniqueBids)
qed

text \<open>
  Claim C8. A run of \<^verbatim>\<open>processBatch\<close> leaves the balance of every token with no bid in
  the batch as it was, and no name changes: the keys of the Map that the multi-put
  writes are the tokens of the deduplicated bids, which are the tokens of the batch.
\<close>

theorem settlement_frame:
  assumes "t \<notin> token ` set (batch s)"
  shows "balances (fst (processBatch cfg w s)) t = balances s t
       \<and> names (fst (processBatch cfg w s)) = names s
       \<and> fst ` set (updatedBalances cfg (balances s) (batch s)) = token ` set (uniqueBids (batch s))
       \<and> token ` set (uniqueBids (batch s)) = token ` set (batch s)"
proof -
  obtain s' oc where r: "processBatch cfg w s = (s', oc)" by (cases "processBatch cfg w s")
  note c = processBatch_cases [OF r]
  have "balances s' t = balances s t"
  proof (cases "balances s' = balances s")
    case True
    then show ?thesis by simp
  next
    case False
    with c have ne: "batch s \<noteq> []"
      and b: "balances s' = put_all (updatedBalances cfg (balances s) (batch s)) (balances s)"
      by auto
    from ne obtain hb rest where "sortedBids (batch s) = hb # rest"
      using sortedBids_Nil [of "batch s"] by (cases "sortedBids (batch s)") auto
    from put_updatedBalances [OF this, of cfg "balances s" t] assms b show ?thesis by simp
  qed
  then show ?thesis using c r by (simp add: keys_updatedBalances set_tokens_uniqueBids)
qed

theorem settlement_frame_witness:
  "''DA0ODxAREhMUFRYX'' \<notin> token ` set (batch round_state)
   \<and> balances round_state ''DA0ODxAREhMUFRYX'' = Some (Num 10)
   \<and> balances (fst (processBatch default_config quiet_world round_state)) ''DA0ODxAREhMUFRYX''
       = Some (Num 10)"
proof -
  have h: "''DA0ODxAREhMUFRYX'' \<notin> token ` set (batch round_state)" by code_simp
  have v: "balances round_state ''DA0ODxAREhMUFRYX'' = Some (Num 10)" by code_simp
  from settlement_frame [OF h, of default_config quiet_world] h v show ?thesis by simp
qed

subsection \<open>A storage operation that throws\<close>

text \<open>
  Claim C4. When a storage operation of a settlement throws, the run is aborted and no
  message is appended; the runtime's reset answers every parked request with a 500 and
  leaves the batch and the parked list empty and \<^verbatim>\<open>processing\<close> false, so that the next
  bid opens a round that is settled as usual. The storage keeps what the callback had
  done before the exception: the alarm is deleted unless \<^verbatim>\<open>deleteAlarm\<close> is what threw,
  and the balances of the round are written when it is the put of the message that
  threw; no name changes.
\<close>

theorem failed_settlement_resets:
  assumes "\<not> processing s" and "fault w = Some op"
  shows "(\<exists>a. snd (processBatch cfg w s) = Aborted a
            \<and> broken a = map (\<lambda>p. (resolve p, Response 500 RuntimeError)) (pendingRequests s)
            \<and> dropped a = batch s)
       \<and> messages (fst (processBatch cfg w s)) = messages s
       \<and> batch (fst (processBatch cfg w s)) = []
       \<and> pendingRequests (fst (processBatch cfg w s)) = []
       \<and> \<not> processing (fst (processBatch cfg w s))
       \<and> alarm_slot (fst (processBatch cfg w s)) = (if op = DeleteAlarm then alarm_slot s else None)
       \<and> balances (fst (processBatch cfg w s)) =
           (if op = PutMessage \<and> batch s \<noteq> []
            then put_all (updatedBalances cfg (balances s) (batch s)) (balances s)
            else balances s)
       \<and> names (fst (processBatch cfg w s)) = names s
       \<and> (fault w' = None \<longrightarrow>
            (\<exists>r. snd (processBatch cfg w' (pushed cfg w' b (fst (processBatch cfg w s)))) = Settled r
                 \<and> settled r = [b]))"
proof -
  note a = processBatch_aborts [OF assms, of cfg]
  have "\<exists>r. snd (processBatch cfg w' (pushed cfg w' b (fst (processBatch cfg w s)))) = Settled r
                 \<and> settled r = [b]" if w': "fault w' = None"
  proof -
    have i: "\<not> processing (pushed cfg w' b (fst (processBatch cfg w s)))"
      and n: "batch (pushed cfg w' b (fst (processBatch cfg w s))) \<noteq> []"
      using a(4) by (simp_all add: pushed_simps)
    from processBatch_clean [OF i w' n, of cfg] show ?thesis
      using a(2) by (auto simp: pushed_simps)
  qed
  with a show ?thesis by blast
qed

text \<open>The waiting round, when the multi-get of the balances throws: the four parked
  requests get their 500, and a bid pushed afterwards is settled.\<close>

theorem failed_settlement_resets_witness:
  "\<not> processing round_state \<and> fault failing_world = Some GetBalances
   \<and> (\<exists>a. snd (processBatch default_config failing_world round_state) = Aborted a
          \<and> broken a = [(1, Response 500 RuntimeError), (2, Response 500 RuntimeError),
                        (3, Response 500 RuntimeError), (4, Response 500 RuntimeError)]
          \<and> dropped a = batch round_state)
   \<and> messages (fst (processBatch default_config failing_world round_state)) = messages round_state
   \<and> batch (fst (processBatch default_config failing_world round_state)) = []
   \<and> pendingRequests (fst (processBatch default_config failing_world round_state)) = []
   \<and> \<not> processing (fst (processBatch default_config failing_world round_state))
   \<and> alarm_slot (fst (processBatch default_config failing_world round_state)) = None
   \<and> balances (fst (processBatch default_config failing_world round_state)) = balances round_state
   \<and> (\<exists>r. snd (processBatch default_config quiet_world
              (pushed default_config quiet_world
                 \<lparr>token = ''DA0ODxAREhMUFRYX'', message = Str ''e'', bid = 1\<rparr>
                 (fst (processBatch default_config failing_world round_state)))) = Settled r
          \<and> settled r = [\<lparr>token = ''DA0ODxAREhMUFRYX'', message = Str ''e'', bid = 1\<rparr>])"
proof -
  have h1: "\<not> processing round_state" by (rule round_idle)
  have h2: "fault failing_world = Some GetBalances" by (simp add: failing_world_def)
  have h3: "fault quiet_world = None" by (simp add: quiet_world_def)
  have p: "map (\<lambda>p. (resolve p, Response 500 RuntimeError)) (pendingRequests round_state) =
      [(1, Response 500 RuntimeError), (2, Response 500 RuntimeError),
       (3, Response 500 RuntimeError), (4, Response 500 RuntimeError)]"
    by code_simp
  from failed_settlement_resets [OF h1 h2, of default_config quiet_world
      "\<lparr>token = ''DA0ODxAREhMUFRYX'', message = Str ''e'', bid = 1\<rparr>"] h1 h2 h3 p
  show ?thesis by simp
qed

subsection \<open>Requests, case by case\<close>

lemma admit_eq:
  "admit cfg w c b s =
     (if N cfg \<le> int (length (batch s)) + 1 then
        (case processBatch cfg w (pushed cfg w b s) of
           (s3, Aborted a) \<Rightarrow> (s3, Throws, Some (Aborted a))
         | (s3, oc) \<Rightarrow> (s3, Reply (Response 500 (Text ''Unexpected error'')), Some oc))
      else
        ((pushed cfg w b s)\<lparr>pendingRequests := pendingRequests s @ [\<lparr>pending_token = token b, resolve = c\<rparr>]\<rparr>,
         Parked, None))"
proof (cases "batch s = []")
  case True
  then show ?thesis by (simp add: admit_def pushed_def Let_def)
next
  case False
  then have "length (batch s) \<noteq> 0" by simp
  then show ?thesis using False by (simp add: admit_def pushed_def Let_def)
qed

lemma admission_valid:
  assumes "admission s (Request w req) = Some b"
  shows "0 < bid b \<and> balances s (token b) \<noteq> None"
  using assms
  by (auto simp: validateSend_def split: if_splits option.splits sum.splits jsval.splits)

lemma fetch_parts:
  "fst (fetch cfg w req s) = (case route cfg w req s of None \<Rightarrow> s | Some r \<Rightarrow> fst r)"
  "snd (snd (fetch cfg w req s)) =
     (case route cfg w req s of None \<Rightarrow> None | Some r \<Rightarrow> snd (snd r))"
proof -
  show "fst (fetch cfg w req s) = (case route cfg w req s of None \<Rightarrow> s | Some r \<Rightarrow> fst r)"
  proof (cases "route cfg w req s")
    case None
    then show ?thesis by (simp add: fetch_def)
  next
    case (Some r)
    obtain s' rp oc where r: "r = (s', rp, oc)" by (cases r)
    show ?thesis unfolding fetch_def Some r by (cases rp) simp_all
  qed
  show "snd (snd (fetch cfg w req s)) =
     (case route cfg w req s of None \<Rightarrow> None | Some r \<Rightarrow> snd (snd r))"
  proof (cases "route cfg w req s")
    case None
    then show ?thesis by (simp add: fetch_def)
  next
    case (Some r)
    obtain s' rp oc where r: "r = (s', rp, oc)" by (cases r)
    show ?thesis unfolding fetch_def Some r by (cases rp) simp_all
  qed
qed

lemma route_cases:
  obtains
    (send) "method req = ''POST''" "pathname req = ''/messages''"
      "route cfg w req s = Some (handleSendMessage cfg w req s)"
  | (register) "method req = ''PUT''" "pathname req = ''/register''"
      "route cfg w req s = Some (quiet (handleRegister cfg w req s))"
  | (delete) "method req = ''GET''" "pathname req = ''/delete''"
      "route cfg w req s = Some (quiet (handleDelete cfg req s))"
  | (reading) r where "route cfg w req s = Some (s, r, None)"
      "\<not> (method req = ''POST'' \<and> pathname req = ''/messages'')"
      "\<not> (method req = ''GET'' \<and> pathname req = ''/delete'')"
  | (unrouted) "route cfg w req s = None"
      "\<not> (method req = ''POST'' \<and> pathname req = ''/messages'')"
      "\<not> (method req = ''GET'' \<and> pathname req = ''/delete'')"
proof (cases "method req = ''OPTIONS''")
  case True
  then have "route cfg w req s = Some (s, Reply (handleOptions req), None)"
    by (simp add: route_def)
  with True show ?thesis by (intro reading) auto
next
  case opt: False
  show ?thesis
  proof (cases "pathname req = ''/register''")
    case True
    then show ?thesis using opt
      by (cases "method req = ''PUT''") (auto simp: route_def intro: register unrouted)
  next
    case reg: False
    show ?thesis
    proof (cases "pathname req = ''/messages''")
      case True
      show ?thesis
      proof (cases "method req = ''POST''")
        case True
        then show ?thesis using opt \<open>pathname req = ''/messages''\<close>
          by (intro send) (auto simp: route_def)
      next
        case False
        show ?thesis
        proof (cases "method req = ''GET''")
          case True
          then have "route cfg w req s = Some (s, snd (handleReplayMessages req s), None)"
            using \<open>pathname req = ''/messages''\<close>
            by (simp add: route_def quiet_def handleReplayMessages_def)
          then show ?thesis using False \<open>pathname req = ''/messages''\<close>
            by (intro reading) auto
        next
          case g: False
          then have "route cfg w req s = None"
            using opt False \<open>pathname req = ''/messages''\<close> by (simp add: route_def)
          then show ?thesis using False \<open>pathname req = ''/messages''\<close>
            by (intro unrouted) auto
        qed
      qed
    next
      case msg: False
      show ?thesis
      proof (cases "method req = ''GET'' \<and> pathname req = ''/delete''")
        case True
        then show ?thesis using opt by (intro delete) (auto simp: route_def)
      next
        case nd: False
        have rd: "fst (handleGetBalance req s) = s" "fst (handleListClients cfg req s) = s"
          by (auto simp: handleGetBalance_def handleListClients_def split: option.splits)
        have "route cfg w req s = None \<or> (\<exists>r. route cfg w req s = Some (s, r, None))"
          using opt reg msg nd rd by (auto simp: route_def quiet_def)
        then show ?thesis using msg nd by (auto intro: reading unrouted)
      qed
    qed
  qed
qed

lemma fetch_admission:
  assumes "admission s (Request w req) = Some b"
  shows "fst (fetch cfg w req s) = fst (admit cfg w (conn req) b s)"
    and "snd (snd (fetch cfg w req s)) = snd (snd (admit cfg w (conn req) b s))"
proof -
  from assms have m: "method req = ''POST''" "pathname req = ''/messages''"
    and v: "validateSend req s = Inr b"
    by (auto split: if_splits sum.splits)
  have r: "route cfg w req s = Some (admit cfg w (conn req) b s)"
    by (simp add: route_def m handleSendMessage_def v)
  show "fst (fetch cfg w req s) = fst (admit cfg w (conn req) b s)"
    by (simp add: fetch_parts r)
  show "snd (snd (fetch cfg w req s)) = snd (snd (admit cfg w (conn req) b s))"
    by (simp add: fetch_parts r)
qed

lemma handleRegister_state:
  "fst (handleRegister cfg w req s) = s \<or>
   fst (handleRegister cfg w req s) =
     s\<lparr>balances := (balances s)(generateToken (randomBytes w) \<mapsto> Num (start cfg)),
       names := (names s)(generateToken (randomBytes w) \<mapsto> field_name (the (json_body req)))\<rparr>"
  by (auto simp: handleRegister_def Let_def split: option.splits)

lemma handleDelete_state:
  "fst (handleDelete cfg req s) =
     (if method req = ''GET'' \<and> authorization req = Some (bearer cfg) then reset_state s else s)"
  by (simp add: handleDelete_def reset_state_def)

lemma fetch_no_admission:
  assumes "admission s (Request w req) = None"
  shows "snd (snd (fetch cfg w req s)) = None"
    and "resets cfg (Request w req) \<Longrightarrow> fst (fetch cfg w req s) = reset_state s"
    and "\<not> resets cfg (Request w req) \<Longrightarrow>
           fst (fetch cfg w req s) = s \<or>
           fst (fetch cfg w req s) =
             s\<lparr>balances := (balances s)(generateToken (randomBytes w) \<mapsto> Num (start cfg)),
               names := (names s)(generateToken (randomBytes w) \<mapsto>
                  field_name (the (json_body req)))\<rparr>"
proof -
  have hs: "handleSendMessage cfg w req s = (s, r, None)"
    if "validateSend req s = Inl r" for r
    using that by (simp add: handleSendMessage_def)
  have ns: "\<exists>r. validateSend req s = Inl r"
    if "method req = ''POST''" "pathname req = ''/messages''"
    using that assms by (cases "validateSend req s") auto
  show "snd (snd (fetch cfg w req s)) = None"
    by (cases rule: route_cases [of req cfg w s])
       (use ns hs in \<open>auto simp: fetch_parts quiet_def\<close>)
  show "fst (fetch cfg w req s) = reset_state s" if "resets cfg (Request w req)"
    using that
    by (cases rule: route_cases [of req cfg w s])
       (auto simp: fetch_parts quiet_def handleDelete_state)
  show "fst (fetch cfg w req s) = s \<or>
           fst (fetch cfg w req s) =
             s\<lparr>balances := (balances s)(generateToken (randomBytes w) \<mapsto> Num (start cfg)),
               names := (names s)(generateToken (randomBytes w) \<mapsto>
                  field_name (the (json_body req)))\<rparr>"
    if "\<not> resets cfg (Request w req)"
  proof (cases rule: route_cases [of req cfg w s])
    case send
    then show ?thesis using ns hs by (auto simp: fetch_parts)
  next
    case register
    then show ?thesis using handleRegister_state [of cfg w req s]
      by (auto simp: fetch_parts quiet_def)
  next
    case delete
    then show ?thesis using that by (simp add: fetch_parts quiet_def handleDelete_state)
  next
    case (reading r)
    then show ?thesis by (simp add: fetch_parts)
  next
    case unrouted
    then show ?thesis by (simp add: fetch_parts)
  qed
qed


subsection \<open>Runs of processBatch\<close>












subsection \<open>Invariants of an execution\<close>

lemma run_Cons: "run cfg s (e # es) = run cfg (step cfg s e) es"
  by (simp add: run_def)













subsection \<open>The caller whose bid reaches the threshold\<close>

text \<open>
  Claim C2, evaluated. With the default \<open>N = 5\<close> and four parked bids, the fifth bid
  settles the round of five admitted bids inline. Four responses are resolved, those of
  the parked connections 1 to 4; the fifth caller, connection 5, was never parked and is
  answered by the last statement of \<^verbatim>\<open>handleSendMessage\<close>, the 500 whose comment says it
  should not be reached.
\<close>

theorem threshold_caller_gets_500:
  "length (batch round_state) = 4
   \<and> map resolve (pendingRequests round_state) = [1, 2, 3, 4]
   \<and> fst (snd (fetch default_config (at_time 3400) carol_request round_state))
       = Reply (Response 500 (Text ''Unexpected error''))
   \<and> (case snd (snd (fetch default_config (at_time 3400) carol_request round_state)) of
         Some (Settled r) \<Rightarrow> length (settled r) = 5 \<and> map fst (resolved r) = [1, 2, 3, 4]
       | _ \<Rightarrow> False)
   \<and> pendingRequests (fst (fetch default_config (at_time 3400) carol_request round_state)) = []"
  by code_simp

subsection \<open>The bounds of a balance\<close>

lemma set_uniqueBids_subset: "set (uniqueBids xs) \<subseteq> set xs"
proof
  fix b assume "b \<in> set (uniqueBids xs)"
  then obtain k where "(k, b) \<in> set (uniqueBidsMap xs)" by (auto simp: uniqueBids_def)
  from uniqueBidsMap_entry [OF this] show "b \<in> set xs" by (auto simp: earliest_highest_def)
qed

lemma secondHighestBid_nonneg: "\<forall>x\<in>set xs. 0 < bid x \<Longrightarrow> 0 \<le> secondHighestBid xs"
  by (auto simp: secondHighestBid_def split: list.splits)

lemma processBatch_inv:
  assumes "capped cfg s" "funded s" "0 \<le> accumulate cfg"
  shows "capped cfg (fst (processBatch cfg w s)) \<and> funded (fst (processBatch cfg w s))"
proof -
  obtain s' oc where r: "processBatch cfg w s = (s', oc)" by (cases "processBatch cfg w s")
  note c = processBatch_cases [OF r]
  have sub: "set (batch s') \<subseteq> set (batch s)" using c by auto
  show ?thesis
  proof (cases "balances s' = balances s")
    case True
    then show ?thesis using assms(1,2) sub r by (auto simp: capped_def funded_def)
  next
    case False
    with c have ne: "batch s \<noteq> []"
      and b: "balances s' = put_all (updatedBalances cfg (balances s) (batch s)) (balances s)"
      by auto
    from ne obtain hb rest where srt: "sortedBids (batch s) = hb # rest"
      using sortedBids_Nil [of "batch s"] by (cases "sortedBids (batch s)") auto
    have "set (hb # rest) \<subseteq> set (batch s)"
      using set_sortedBids [of "batch s"] set_uniqueBids_subset [of "batch s"] srt by simp
    then have "\<forall>x\<in>set (hb # rest). 0 < bid x" using assms(2) by (auto simp: funded_def)
    then have sec: "0 \<le> secondHighestBid (hb # rest)" by (rule secondHighestBid_nonneg)
    have val: "balances s' t =
       (if t \<in> token ` set (batch s)
        then Some (if t = token hb
                   then clamp0 (js_sub (balances s t) (secondHighestBid (hb # rest)))
                   else js_min (max_bal cfg) (js_add (balances s t) (accumulate cfg)))
        else balances s t)" for t
      unfolding b by (rule put_updatedBalances [OF srt])
    have old: "\<exists>v. balances s t = Some (Num v) \<and> 0 \<le> v \<and> v \<le> max_bal cfg"
      if "t \<in> token ` set (batch s)" for t
    proof -
      from that assms(2) obtain x where "balances s t = Some x" by (auto simp: funded_def)
      with assms(1) show ?thesis by (auto simp: capped_def)
    qed
    have cap: "capped cfg s'"
      unfolding capped_def
    proof (intro allI impI)
      fix t v assume tv: "balances s' t = Some v"
      show "\<exists>b. v = Num b \<and> 0 \<le> b \<and> b \<le> max_bal cfg"
      proof (cases "t \<in> token ` set (batch s)")
        case False
        then show ?thesis using tv assms(1) by (simp add: val capped_def)
      next
        case True
        from old [OF True] obtain x where x: "balances s t = Some (Num x)" "0 \<le> x" "x \<le> max_bal cfg"
          by auto
        show ?thesis using tv True x sec assms(3)
          by (auto simp: val clamp0_def split: if_splits)
      qed
    qed
    have "funded s'"
      unfolding funded_def
    proof
      fix x assume "x \<in> set (batch s')"
      then have "x \<in> set (batch s)" using sub by auto
      then show "0 < bid x \<and> balances s' (token x) \<noteq> None"
        using assms(2) by (auto simp: val funded_def)
    qed
    with cap show ?thesis using r by simp
  qed
qed

lemma pushed_inv:
  assumes "capped cfg s" "funded s" "0 < bid b" "balances s (token b) \<noteq> None"
  shows "capped cfg (pushed cfg w b s)" "funded (pushed cfg w b s)"
  using assms by (auto simp: capped_def funded_def pushed_def)

lemma admit_inv:
  assumes "capped cfg s" "funded s" "0 \<le> accumulate cfg" "0 < bid b" "balances s (token b) \<noteq> None"
  shows "capped cfg (fst (admit cfg w c b s)) \<and> funded (fst (admit cfg w c b s))"
proof (cases "N cfg \<le> int (length (batch s)) + 1")
  case True
  have "fst (admit cfg w c b s) = fst (processBatch cfg w (pushed cfg w b s))"
    using True by (auto simp: admit_eq split: prod.splits outcome.splits)
  then show ?thesis
    using processBatch_inv [OF pushed_inv [OF assms(1,2,4,5)] assms(3)] by simp
next
  case False
  then show ?thesis using pushed_inv [OF assms(1,2,4,5), of w]
    by (auto simp: admit_eq capped_def funded_def)
qed

lemma alarm_fires_inv:
  assumes "capped cfg s" "funded s" "0 \<le> accumulate cfg"
  shows "capped cfg (fst (alarm_fires cfg w s)) \<and> funded (fst (alarm_fires cfg w s))"
proof -
  have a: "capped cfg (s\<lparr>alarm_slot := None\<rparr>)" "funded (s\<lparr>alarm_slot := None\<rparr>)"
    using assms(1,2) by (auto simp: capped_def funded_def)
  have "fst (alarm_fires cfg w s) = s \<or>
        fst (alarm_fires cfg w s) = s\<lparr>alarm_slot := None\<rparr> \<or>
        fst (alarm_fires cfg w s) = fst (processBatch cfg w (s\<lparr>alarm_slot := None\<rparr>))"
    by (auto simp: alarm_fires_def alarm_def split: option.splits prod.splits)
  then show ?thesis using assms(1,2) a processBatch_inv [OF a assms(3), of w] by auto
qed

lemma register_inv:
  assumes "capped cfg s" "funded s" "0 \<le> st" "st \<le> max_bal cfg"
  shows "capped cfg (s\<lparr>balances := (balances s)(tok \<mapsto> Num st), names := nm\<rparr>)"
    and "funded (s\<lparr>balances := (balances s)(tok \<mapsto> Num st), names := nm\<rparr>)"
proof -
  show "capped cfg (s\<lparr>balances := (balances s)(tok \<mapsto> Num st), names := nm\<rparr>)"
    unfolding capped_def
  proof (intro allI impI)
    fix t v
    assume "balances (s\<lparr>balances := (balances s)(tok \<mapsto> Num st), names := nm\<rparr>) t = Some v"
    then show "\<exists>b. v = Num b \<and> 0 \<le> b \<and> b \<le> max_bal cfg"
      using assms(1,3,4) by (cases "t = tok") (auto simp: capped_def)
  qed
  show "funded (s\<lparr>balances := (balances s)(tok \<mapsto> Num st), names := nm\<rparr>)"
    using assms(2) by (auto simp: funded_def)
qed

lemma step_inv:
  assumes "capped cfg s" "funded s"
    and "0 \<le> start cfg" "start cfg \<le> max_bal cfg" "0 \<le> accumulate cfg"
  shows "capped cfg (step cfg s e) \<and> funded (step cfg s e)"
proof (cases e)
  case (AlarmFires w)
  then show ?thesis using alarm_fires_inv [OF assms(1,2,5)] by simp
next
  case (Request w req)
  show ?thesis
  proof (cases "admission s (Request w req)")
    case (Some b)
    from admit_inv [OF assms(1,2,5), of b w "conn req"] admission_valid [OF Some]
    show ?thesis using Request by (simp add: fetch_admission(1) [OF Some])
  next
    case None
    show ?thesis
    proof (cases "resets cfg (Request w req)")
      case True
      then show ?thesis using fetch_no_admission(2) [OF None True] Request
        by (simp add: capped_def funded_def reset_state_def)
    next
      case False
      from fetch_no_admission(3) [OF None False, of] show ?thesis
        using assms(1,2) register_inv [OF assms(1,2,3,4)] Request by auto
    qed
  qed
qed

lemma run_inv:
  assumes "capped cfg s" "funded s"
    and "0 \<le> start cfg" "start cfg \<le> max_bal cfg" "0 \<le> accumulate cfg"
  shows "capped cfg (run cfg s es) \<and> funded (run cfg s es)"
  using assms(1,2)
proof (induction es arbitrary: s)
  case Nil
  then show ?case by (simp add: run_def)
next
  case (Cons e es)
  from step_inv [OF Cons.prems assms(3-5), of e] Cons.IH [of "step cfg s e"]
  show ?case by (simp add: run_Cons)
qed

text \<open>
  Claim C5, as amended. When the configuration has \<open>0 \<le> START_BAL \<le> MAX_BAL\<close> and
  \<open>0 \<le> ACCUMULATE_BAL\<close>, every balance stored after any sequence of requests and alarms
  from the initial state, with or without storage faults, is a number from 0 to
  \<open>MAX_BAL\<close>.
\<close>

theorem balance_cap:
  assumes "0 \<le> start cfg" and "start cfg \<le> max_bal cfg" and "0 \<le> accumulate cfg"
    and "balances (run cfg init es) t = Some v"
  shows "\<exists>b. v = Num b \<and> 0 \<le> b \<and> b \<le> max_bal cfg"
proof -
  have "capped cfg init" "funded init" by (simp_all add: capped_def funded_def init_def)
  from run_inv [OF this assms(1-3), of es] assms(4) show ?thesis by (auto simp: capped_def)
qed

theorem balance_cap_witness:
  "0 \<le> start default_config \<and> start default_config \<le> max_bal default_config
   \<and> 0 \<le> accumulate default_config
   \<and> balances (run default_config init demo_events) ''AECAwQFBgcICQoL'' = Some (Num 5)
   \<and> (\<exists>b. Num 5 = Num b \<and> 0 \<le> b \<and> b \<le> max_bal default_config)"
proof -
  have h1: "0 \<le> start default_config" and h2: "start default_config \<le> max_bal default_config"
    and h3: "0 \<le> accumulate default_config"
    by (simp_all add: default_config_def)
  have h4: "balances (run default_config init demo_events) ''AECAwQFBgcICQoL'' = Some (Num 5)"
    by code_simp
  from balance_cap [OF h1 h2 h3 h4] h1 h2 h3 h4 show ?thesis by blast
qed

text \<open>
  Claim C5 as stated fails for environments the constructor accepts: with
  \<open>START_BAL = 200\<close> and \<open>MAX_BAL = 100\<close>, or with \<open>START_BAL = -5\<close>, registration stores
  the start balance as it is; with \<open>ACCUMULATE_BAL = -20\<close> the bidder who lost the round of
  the execution above ends at \<open>-10\<close>.
\<close>

theorem balance_cap_counterexample:
  "balances (run (configure \<lparr>env_N = None, env_TIMEOUT = None, env_ACCUMULATE_BAL = None,
        env_START_BAL = Some 200, env_MAX_BAL = Some 100, env_ADMIN_TOKEN = None\<rparr>) init
      [Request quiet_world (register_request ''Alice'')]) ''AAECAwQFBgcICQoL'' = Some (Num 200)
   \<and> max_bal (configure \<lparr>env_N = None, env_TIMEOUT = None, env_ACCUMULATE_BAL = None,
        env_START_BAL = Some 200, env_MAX_BAL = Some 100, env_ADMIN_TOKEN = None\<rparr>) = 100
   \<and> balances (run (configure \<lparr>env_N = None, env_TIMEOUT = None, env_ACCUMULATE_BAL = None,
        env_START_BAL = Some (- 5), env_MAX_BAL = None, env_ADMIN_TOKEN = None\<rparr>) init
      [Request quiet_world (register_request ''Alice'')]) ''AAECAwQFBgcICQoL'' = Some (Num (- 5))
   \<and> balances (run (configure \<lparr>env_N = None, env_TIMEOUT = None, env_ACCUMULATE_BAL = Some (- 20),
        env_START_BAL = None, env_MAX_BAL = None, env_ADMIN_TOKEN = None\<rparr>) init demo_events)
        ''AAECAwQFBgcICQoL'' = Some (Num (- 10))"
  by code_simp

subsection \<open>The alarm and the batch\<close>





subsection \<open>One run for every batch\<close>






subsection \<open>Routing\<close>

lemma register_not_405:
  "method req = ''PUT'' \<Longrightarrow> snd (handleRegister cfg w req s) \<noteq> Reply (Response 405 b)"
  by (auto simp: handleRegister_def Let_def split: option.splits)

lemma balance_not_405:
  "method req = ''GET'' \<Longrightarrow> snd (handleGetBalance req s) \<noteq> Reply (Response 405 b)"
  by (auto simp: handleGetBalance_def split: option.splits)

lemma clients_not_405:
  "method req = ''GET'' \<Longrightarrow> snd (handleListClients cfg req s) \<noteq> Reply (Response 405 b)"
  by (auto simp: handleListClients_def)

lemma replay_not_405:
  "method req = ''GET'' \<Longrightarrow> snd (handleReplayMessages req s) \<noteq> Reply (Response 405 b)"
  by (auto simp: handleReplayMessages_def)

lemma delete_not_405:
  "method req = ''GET'' \<Longrightarrow> snd (handleDelete cfg req s) \<noteq> Reply (Response 405 b)"
  by (auto simp: handleDelete_def)

lemma validate_not_405:
  "method req = ''POST'' \<Longrightarrow> validateSend req s \<noteq> Inl (Reply (Response 405 b))"
  by (auto simp: validateSend_def split: option.splits jsval.splits)

lemma admit_not_405: "fst (snd (admit cfg w c x s)) \<noteq> Reply (Response 405 b)"
  by (auto simp: admit_eq split: prod.splits outcome.splits)

lemma send_not_405:
  "method req = ''POST'' \<Longrightarrow> fst (snd (handleSendMessage cfg w req s)) \<noteq> Reply (Response 405 b)"
  using validate_not_405 [of req s b] admit_not_405 [of cfg w "conn req" _ s b]
  by (auto simp: handleSendMessage_def split: sum.splits)

lemma route_not_405:
  "route cfg w req s = Some r \<Longrightarrow> fst (snd r) \<noteq> Reply (Response 405 b)"
  using register_not_405 [of req cfg w s b] balance_not_405 [of req s b]
    clients_not_405 [of req cfg s b] replay_not_405 [of req s b] delete_not_405 [of req cfg s b]
    send_not_405 [of req cfg w s b]
  by (auto simp: route_def quiet_def handleOptions_def split: if_splits)

lemma fetch_reply_not_405: "fst (snd (fetch cfg w req s)) \<noteq> Reply (Response 405 b)"
proof (cases "route cfg w req s")
  case None
  then show ?thesis by (simp add: fetch_def)
next
  case (Some r)
  obtain s' rp oc where r: "r = (s', rp, oc)" by (cases r)
  from route_not_405 [OF Some, of b] have "rp \<noteq> Reply (Response 405 b)" by (simp add: r)
  then show ?thesis unfolding fetch_def Some r by (cases rp) auto
qed


text \<open>
  Claim C10, evaluated. A request whose path is routed but whose method is not runs to
  the \<^verbatim>\<open>break\<close> of its \<^verbatim>\<open>case\<close> and gets the 404 of an unknown path; the 405 that
  every handler has for a wrong method is never reached from \<^verbatim>\<open>fetch\<close>, whatever the
  request.
\<close>

theorem method_mismatch_is_404:
  "fetch cfg w \<lparr>method = ''POST'', pathname = ''/register'', client_token = ct,
       authorization = au, json_body = jb, conn = c\<rparr> s
     = (s, Reply (Response 404 (Text ''Not found'')), None)
   \<and> fetch cfg w \<lparr>method = ''PUT'', pathname = ''/messages'', client_token = ct,
       authorization = au, json_body = jb, conn = c\<rparr> s
     = (s, Reply (Response 404 (Text ''Not found'')), None)
   \<and> fetch cfg w \<lparr>method = ''POST'', pathname = ''/balance'', client_token = ct,
       authorization = au, json_body = jb, conn = c\<rparr> s
     = (s, Reply (Response 404 (Text ''Not found'')), None)
   \<and> fst (snd (fetch cfg w req s)) \<noteq> Reply (Response 405 b)"
  using fetch_reply_not_405 [of cfg w req s b] by (simp add: fetch_def route_def)

end
